theory Spec2Isabelle
  imports Main "HOL-Library.Sublist" "HOL-Library.Char_ord"
begin

section \<open>Strings\<close>

text \<open>
  A Python \<open>str\<close> is modelled as a \<open>string\<close>: each \<open>char\<close> is one code point in the range
  U+0000 to U+00FF. The character classes below are the ones CPython uses on that range:
  \<open>str.isspace\<close> (also the regular expression class \<open>\s\<close> and what \<open>str.strip\<close> removes),
  the class \<open>\w\<close> (alphanumeric or underscore), \<open>str.lower\<close>, and the line boundaries of
  \<open>str.splitlines\<close>.
\<close>

definition isspace :: "char \<Rightarrow> bool" where
  "isspace c =
     (c \<in> set [CHR 0x09, CHR 0x0A, CHR 0x0B, CHR 0x0C, CHR 0x0D, CHR 0x1C, CHR 0x1D,
                CHR 0x1E, CHR 0x1F, CHR 0x20, CHR 0x85, CHR 0xA0])"

definition isword :: "char \<Rightarrow> bool" where
  "isword c =
     ((CHR ''0'' \<le> c \<and> c \<le> CHR ''9'') \<or> (CHR ''A'' \<le> c \<and> c \<le> CHR ''Z'') \<or> c = CHR ''_'' \<or>
      (CHR ''a'' \<le> c \<and> c \<le> CHR ''z'') \<or>
      c \<in> set [CHR 0xAA, CHR 0xB2, CHR 0xB3, CHR 0xB5, CHR 0xB9, CHR 0xBA, CHR 0xBC, CHR 0xBD,
                CHR 0xBE] \<or>
      (CHR 0xC0 \<le> c \<and> c \<le> CHR 0xD6) \<or> (CHR 0xD8 \<le> c \<and> c \<le> CHR 0xF6) \<or> CHR 0xF8 \<le> c)"

text \<open>
  The characters \<open>str.lower\<close> changes are the capital letters, \<open>A\<close> to \<open>Z\<close> and U+00C0 to
  U+00DE without the multiplication sign U+00D7. Their small letter is 32 code points
  further: bit 5, which is clear in every capital letter, is set.
\<close>

definition is_upper :: "char \<Rightarrow> bool" where
  "is_upper c =
     ((CHR ''A'' \<le> c \<and> c \<le> CHR ''Z'') \<or> (CHR 0xC0 \<le> c \<and> c \<le> CHR 0xDE \<and> c \<noteq> CHR 0xD7))"

definition lower_char :: "char \<Rightarrow> char" where
  "lower_char c =
     (if is_upper c
      then (case c of Char b0 b1 b2 b3 b4 b5 b6 b7 \<Rightarrow> Char b0 b1 b2 b3 b4 True b6 b7)
      else c)"

definition lower :: "string \<Rightarrow> string" where
  "lower s = map lower_char s"

definition strip :: "string \<Rightarrow> string" where
  "strip s = rev (dropWhile isspace (rev (dropWhile isspace s)))"

definition is_linebreak :: "char \<Rightarrow> bool" where
  "is_linebreak c =
     (c \<in> set [CHR 0x0A, CHR 0x0B, CHR 0x0C, CHR 0x0D, CHR 0x1C, CHR 0x1D, CHR 0x1E, CHR 0x85])"

text \<open>
  \<open>splitlines_from cur s\<close>: \<open>cur\<close> is the line read so far. A carriage return followed by
  a line feed is one boundary; a boundary at the very end opens no further line.
\<close>

fun splitlines_from :: "string \<Rightarrow> string \<Rightarrow> string list" where
  "splitlines_from cur [] = (if cur = [] then [] else [cur])"
| "splitlines_from cur (c # cs) =
     (if c = CHR 0x0D then
        (case cs of
           [] \<Rightarrow> cur # splitlines_from [] cs
         | d # ds \<Rightarrow>
             if d = CHR 0x0A then cur # splitlines_from [] ds
             else cur # splitlines_from [] cs)
      else if is_linebreak c then cur # splitlines_from [] cs
      else splitlines_from (cur @ [c]) cs)"

definition splitlines :: "string \<Rightarrow> string list" where
  "splitlines s = splitlines_from [] s"


section \<open>The argument model\<close>

text \<open>
  A value of the \<open>arguments\<close> dictionary built by \<open>extract_arguments\<close>: a string, or the
  list stored under \<open>tips\<close>.
\<close>

datatype argval = Str string | Lst "string list"

record EndpointArguments =
  path :: string
  http_method :: "string option"
  endpoint_title :: "string option"
  endpoint_icon :: "string option"
  tips :: "string list option"

datatype field_error = Missing | NotString | NotList

datatype exn = ValueError string | AttributeError | TypeError | KeyError string

text \<open>
  \<open>EndpointArguments(**arguments)\<close>: the validation library checks the five declared fields,
  in their order of declaration, and ignores every other key (its default). \<open>path\<close> is
  required and a string; the three optional strings default to \<open>None\<close>; \<open>tips\<close> is a list of
  strings when given. A list is no string and a string is no list.
\<close>

definition required_str :: "(string \<rightharpoonup> argval) \<Rightarrow> string \<Rightarrow> (string \<times> field_error) list" where
  "required_str a k =
     (case a k of None \<Rightarrow> [(k, Missing)] | Some (Str s) \<Rightarrow> [] | Some (Lst l) \<Rightarrow> [(k, NotString)])"

definition optional_str :: "(string \<rightharpoonup> argval) \<Rightarrow> string \<Rightarrow> (string \<times> field_error) list" where
  "optional_str a k =
     (case a k of None \<Rightarrow> [] | Some (Str s) \<Rightarrow> [] | Some (Lst l) \<Rightarrow> [(k, NotString)])"

definition optional_list :: "(string \<rightharpoonup> argval) \<Rightarrow> string \<Rightarrow> (string \<times> field_error) list" where
  "optional_list a k =
     (case a k of None \<Rightarrow> [] | Some (Str s) \<Rightarrow> [(k, NotList)] | Some (Lst l) \<Rightarrow> [])"

definition str_of :: "argval option \<Rightarrow> string option" where
  "str_of v = (case v of Some (Str s) \<Rightarrow> Some s | _ \<Rightarrow> None)"

definition list_of :: "argval option \<Rightarrow> string list option" where
  "list_of v = (case v of Some (Lst l) \<Rightarrow> Some l | _ \<Rightarrow> None)"

definition validation_errors :: "(string \<rightharpoonup> argval) \<Rightarrow> (string \<times> field_error) list" where
  "validation_errors a =
     required_str a ''path'' @ optional_str a ''http_method'' @ optional_str a ''endpoint_title'' @
     optional_str a ''endpoint_icon'' @ optional_list a ''tips''"

definition validate :: "(string \<rightharpoonup> argval) \<Rightarrow> (string \<times> field_error) list + EndpointArguments" where
  "validate a =
     (if validation_errors a \<noteq> [] then Inl (validation_errors a)
      else Inr \<lparr> path = (case a ''path'' of Some (Str s) \<Rightarrow> s | _ \<Rightarrow> []),
                 http_method = str_of (a ''http_method''),
                 endpoint_title = str_of (a ''endpoint_title''),
                 endpoint_icon = str_of (a ''endpoint_icon''),
                 tips = list_of (a ''tips'') \<rparr>)"

text \<open>
  The dictionary \<open>arguments\<close> keeps its keys in the order of their first assignment, as a
  dictionary of the language does: assigning to a key that is present replaces the value
  in place, a new key goes to the end.
\<close>

type_synonym dict = "(string \<times> argval) list"

fun dict_set :: "string \<Rightarrow> argval \<Rightarrow> dict \<Rightarrow> dict" where
  "dict_set k v [] = [(k, v)]"
| "dict_set k v ((k', v') # d) = (if k' = k then (k, v) # d else (k', v') # dict_set k v d)"

text \<open>
  The text of a \<open>ValidationError\<close>, \<open>str(e)\<close>, is written by the validation library, which is
  no part of the source. It is a parameter of the model: a function of the dictionary that
  failed (the library prints it) and of the errors found.
\<close>

type_synonym error_text = "dict \<Rightarrow> (string \<times> field_error) list \<Rightarrow> string"

section \<open>Parsing one block: \<open>extract_arguments\<close>\<close>

text \<open>
  \<open>arg_pattern.match(line)\<close> for \<open>^\s*(\w+):\s*(.*)$\<close>: leading whitespace, the longest run of
  word characters (not empty), a colon, whitespace, and the rest up to the end of the
  line. The classes \<open>\s\<close> and \<open>\w\<close> are disjoint and neither holds the colon, so the
  greedy runs are the only way to match. The result is the pair of groups.
\<close>

definition arg_match :: "string \<Rightarrow> (string \<times> string) option" where
  "arg_match line =
     (let s1 = dropWhile isspace line;
          key = takeWhile isword s1
      in if key = [] then None
         else (case dropWhile isword s1 of
                 [] \<Rightarrow> None
               | c # s2 \<Rightarrow>
                   if c = CHR '':''
                   then Some (key, takeWhile (\<lambda>x. x \<noteq> CHR 0x0A) (dropWhile isspace s2))
                   else None))"

text \<open>
  \<open>continuation_pattern.match(line)\<close> for \<open>^\s{4}(.+)$\<close>: four whitespace characters, then at
  least one character up to the end of the line. The result is group 1.
\<close>

definition continuation_match :: "string \<Rightarrow> string option" where
  "continuation_match line =
     (if 4 \<le> length line \<and> list_all isspace (take 4 line)
      then (let g = takeWhile (\<lambda>x. x \<noteq> CHR 0x0A) (drop 4 line) in if g = [] then None else Some g)
      else None)"

text \<open>The variables of the loop over the lines.\<close>

record parse_state =
  arguments :: dict
  tips_acc :: "string list"
  current_key :: "string option"

definition initial_state :: parse_state where
  "initial_state = \<lparr> arguments = [], tips_acc = [], current_key = None \<rparr>"

text \<open>One turn of the loop body.\<close>

definition parse_line :: "parse_state \<Rightarrow> string \<Rightarrow> parse_state" where
  "parse_line st line =
     (case arg_match line of
        Some (key, v) \<Rightarrow>
          \<lparr> arguments =
              (if strip v \<noteq> [] then dict_set key (Str (strip v)) (arguments st)
               else if key = ''tips'' then dict_set key (Lst []) (arguments st)
               else arguments st),
            tips_acc = tips_acc st,
            current_key = Some key \<rparr>
      | None \<Rightarrow>
          (if current_key st = Some ''tips'' then
             (case continuation_match line of
                Some g \<Rightarrow> st\<lparr> tips_acc := tips_acc st @ [strip g] \<rparr>
              | None \<Rightarrow> st)
           else st))"

definition parse_lines :: "parse_state \<Rightarrow> string list \<Rightarrow> parse_state" where
  "parse_lines st ls = foldl parse_line st ls"

text \<open>The dictionary handed to the validation: the loop, then the collected tips.\<close>

definition finish :: "parse_state \<Rightarrow> dict" where
  "finish st =
     (if tips_acc st \<noteq> [] then dict_set ''tips'' (Lst (tips_acc st)) (arguments st)
      else arguments st)"

definition raw_arguments :: "string \<Rightarrow> dict" where
  "raw_arguments tag_content = finish (parse_lines initial_state (splitlines tag_content))"

text \<open>The validation reads the dictionary by its keys.\<close>

definition extract_arguments :: "error_text \<Rightarrow> string \<Rightarrow> exn + EndpointArguments" where
  "extract_arguments fmt tag_content =
     (case validate (map_of (raw_arguments tag_content)) of
        Inl errs \<Rightarrow>
          Inl (ValueError (''Invalid arguments in docs.endpoint: '' @
                           fmt (raw_arguments tag_content) errs))
      | Inr args \<Rightarrow> Inr args)"


section \<open>Rendering: \<open>generate_tips_section\<close> and \<open>generate_endpoint_docs\<close>\<close>

text \<open>
  The resolved specification, as far as the renderer reads it: \<open>spec['paths']\<close> maps a path
  to a path item, a path item maps a key (the lowercased method) to an operation, and an
  operation maps the names of its string fields (\<open>summary\<close>, \<open>description\<close>) to their texts.
\<close>

type_synonym operation = "string \<rightharpoonup> string"
type_synonym path_item = "string \<rightharpoonup> operation"
type_synonym paths = "string \<rightharpoonup> path_item"

definition generate_tips_section :: "string list \<Rightarrow> string" where
  \<open>generate_tips_section ts =
     (if ts = [] then []
      else ''!!! tip "Method Tips"\<newline>'' @ concat (map (\<lambda>tip. ''    '' @ tip @ ''\<newline>'') ts))\<close>

text \<open>
  Line 135, \<open>self.spec['paths'].get(args.path).get(args.http_method.lower())\<close>: the first
  \<open>get\<close> yields \<open>None\<close> for an unknown path, and reading \<open>.get\<close> of \<open>None\<close> raises
  \<open>AttributeError\<close> before the argument is evaluated; \<open>.lower()\<close> of an absent method raises
  \<open>AttributeError\<close>; the second \<open>get\<close> yields \<open>None\<close> for an unknown key.
\<close>

definition lookup_method_spec :: "paths \<Rightarrow> EndpointArguments \<Rightarrow> exn + operation option" where
  "lookup_method_spec ps args =
     (case ps (path args) of
        None \<Rightarrow> Inl AttributeError
      | Some item \<Rightarrow>
          (case http_method args of
             None \<Rightarrow> Inl AttributeError
           | Some m \<Rightarrow> Inr (item (lower m))))"

text \<open>Formatting an optional string in an f-string: \<open>None\<close> prints as \<open>None\<close>.\<close>

definition fmt_opt :: "string option \<Rightarrow> string" where
  "fmt_opt v = (case v of None \<Rightarrow> ''None'' | Some s \<Rightarrow> s)"

definition title_line :: "EndpointArguments \<Rightarrow> string" where
  \<open>title_line args =
     (case endpoint_title args of
        None \<Rightarrow> []
      | Some t \<Rightarrow>
          if t = [] then []
          else ''## <icon class="'' @ fmt_opt (endpoint_icon args) @ ''" />&nbsp; '' @ t @
               '' {: data-toc-label="'' @ t @ ''" : .custom-header}\<newline>'')\<close>

text \<open>The heading of line 143, for a method \<open>m\<close> that is present, and a summary.\<close>

definition method_heading :: "string \<Rightarrow> string \<Rightarrow> string \<Rightarrow> string" where
  \<open>method_heading m p summary =
     ''### <span class="http-'' @ (if lower m = [] then ''any'' else lower m) @ ''">'' @
     (if m = [] then ''ANY'' else m) @ ''</span>` '' @ p @ ''` -- '' @ summary @
     '' { : data-toc-label="'' @ (m @ '' '' @ summary) @ ''" : .styled-as-h2 }\<newline>\<newline>''\<close>

definition tips_part :: "EndpointArguments \<Rightarrow> string" where
  "tips_part args =
     (case tips args of
        None \<Rightarrow> []
      | Some ts \<Rightarrow> if ts = [] then [] else generate_tips_section ts @ ''\<newline>\<newline>'')"

text \<open>
  Subscripting \<open>None\<close> raises \<open>TypeError\<close>, a missing field of the operation raises
  \<open>KeyError\<close>. The heading calls \<open>args.http_method.lower()\<close> once more; an absent method
  has raised at the lookup already.
\<close>

definition generate_endpoint_docs :: "paths \<Rightarrow> EndpointArguments \<Rightarrow> exn + string" where
  "generate_endpoint_docs ps args =
     (case lookup_method_spec ps args of
        Inl e \<Rightarrow> Inl e
      | Inr method_spec \<Rightarrow>
          (case method_spec of
             None \<Rightarrow> Inl TypeError
           | Some ope \<Rightarrow>
               (case ope ''summary'' of
                  None \<Rightarrow> Inl (KeyError ''summary'')
                | Some summary \<Rightarrow>
                    (case ope ''description'' of
                       None \<Rightarrow> Inl (KeyError ''description'')
                     | Some description \<Rightarrow>
                         (case http_method args of
                            None \<Rightarrow> Inl AttributeError
                          | Some m \<Rightarrow>
                              Inr (title_line args @ method_heading m (path args) summary @
                                   description @ ''\<newline>\<newline>'' @ tips_part args))))))"

section \<open>The pipeline: \<open>on_page_markdown\<close>\<close>

text \<open>
  \<open>replace_docs_endpoint\<close>, the callback of the substitution: only a \<open>ValueError\<close> is caught
  and turned into text; any other exception leaves the callback.
\<close>

definition catch_value_error :: "exn + string \<Rightarrow> exn + string" where
  "catch_value_error r =
     (case r of
        Inl (ValueError e) \<Rightarrow> Inr (''**Error parsing docs.endpoint**: '' @ e)
      | Inl x \<Rightarrow> Inl x
      | Inr d \<Rightarrow> Inr d)"

definition replace_docs_endpoint :: "error_text \<Rightarrow> paths \<Rightarrow> string \<Rightarrow> exn + string" where
  "replace_docs_endpoint fmt ps tag_content =
     catch_value_error
       (case extract_arguments fmt tag_content of
          Inl e \<Rightarrow> Inl e
        | Inr args \<Rightarrow> generate_endpoint_docs ps args)"

text \<open>
  \<open>docs_pattern\<close> is \<open>::: docs\.endpoint\n(.*?)\n:::\<close> with \<open>DOTALL\<close>: the opening text, the
  shortest body of any characters, the closing text. \<open>find_first pat s\<close> splits \<open>s\<close> at the
  first place where the literal \<open>pat\<close> stands: the text before it and the text after it.
\<close>

definition OPEN :: string where
  "OPEN = ''::: docs.endpoint\<newline>''"

definition CLOSE :: string where
  "CLOSE = ''\<newline>:::''"

fun find_first :: "string \<Rightarrow> string \<Rightarrow> (string \<times> string) option" where
  "find_first pat [] = (if pat = [] then Some ([], []) else None)"
| "find_first pat (c # cs) =
     (if prefix pat (c # cs) then Some ([], drop (length pat) (c # cs))
      else (case find_first pat cs of
              None \<Rightarrow> None
            | Some (a, b) \<Rightarrow> Some (c # a, b)))"

text \<open>
  \<open>docs_pattern.search(s)\<close>: the leftmost match and, there, the shortest one. A match
  starts where the opening text stands and the closing text stands somewhere after it;
  when no closing text follows the first opening text, none follows a later one. The
  result is the text before the match, group 1, and the text after the match.
\<close>

definition docs_pattern_search :: "string \<Rightarrow> (string \<times> string \<times> string) option" where
  "docs_pattern_search s =
     (case find_first OPEN s of
        None \<Rightarrow> None
      | Some (pre, r) \<Rightarrow>
          (case find_first CLOSE r of
             None \<Rightarrow> None
           | Some (body, rest) \<Rightarrow> Some (pre, body, rest)))"


lemma find_first_split: "find_first pat s = Some (a, b) \<Longrightarrow> s = a @ pat @ b"
proof (induction s arbitrary: a b)
  case Nil
  then show ?case by (simp split: if_splits)
next
  case (Cons c cs)
  show ?case
  proof (cases "prefix pat (c # cs)")
    case True
    with Cons.prems have ab: "a = []" "b = drop (length pat) (c # cs)" by auto
    from True obtain zs where zs: "c # cs = pat @ zs" by (auto simp: prefix_def)
    have "drop (length pat) (c # cs) = zs" unfolding zs by simp
    with ab zs show ?thesis by simp
  next
    case False
    with Cons.prems obtain a' where "find_first pat cs = Some (a', b)" and "a = c # a'"
      by (auto split: option.splits)
    with Cons.IH show ?thesis by auto
  qed
qed

lemma docs_pattern_search_split:
  "docs_pattern_search s = Some (pre, body, rest) \<Longrightarrow> s = pre @ OPEN @ body @ CLOSE @ rest"
  by (auto simp: docs_pattern_search_def split: option.splits dest!: find_first_split)

lemma docs_pattern_search_shorter:
  "docs_pattern_search s = Some (pre, body, rest) \<Longrightarrow> length rest < length s"
  by (auto dest!: docs_pattern_search_split simp: OPEN_def)

text \<open>
  \<open>docs_pattern.sub(repl, s)\<close>: each match, from left to right, is replaced by what the
  callback returns for it, and the search goes on after the match. An exception of the
  callback ends the substitution.
\<close>

function re_sub :: "(string \<Rightarrow> exn + string) \<Rightarrow> string \<Rightarrow> exn + string" where
  "re_sub repl s =
     (case docs_pattern_search s of
        None \<Rightarrow> Inr s
      | Some (pre, body, rest) \<Rightarrow>
          (case repl body of
             Inl e \<Rightarrow> Inl e
           | Inr r \<Rightarrow>
               (case re_sub repl rest of
                  Inl e \<Rightarrow> Inl e
                | Inr out \<Rightarrow> Inr (pre @ r @ out))))"
  by pat_completeness auto
termination
  by (relation "measure (\<lambda>(repl, s). length s)") (auto dest: docs_pattern_search_shorter)

definition on_page_markdown :: "error_text \<Rightarrow> paths \<Rightarrow> string \<Rightarrow> exn + string" where
  "on_page_markdown fmt ps markdown = re_sub (replace_docs_endpoint fmt ps) markdown"

text \<open>
  The matches the substitution visits in a document: each with the unmatched text before
  it, and the unmatched text after the last one.
\<close>

function docs_pattern_blocks :: "string \<Rightarrow> (string \<times> string) list \<times> string" where
  "docs_pattern_blocks s =
     (case docs_pattern_search s of
        None \<Rightarrow> ([], s)
      | Some (pre, body, rest) \<Rightarrow>
          (case docs_pattern_blocks rest of (bs, tail) \<Rightarrow> ((pre, body) # bs, tail)))"
  by pat_completeness auto
termination
  by (relation "measure length") (auto dest: docs_pattern_search_shorter)




section \<open>A specification with one operation\<close>

definition users_op :: operation where
  "users_op = [''summary'' \<mapsto> ''List users'', ''description'' \<mapsto> ''Returns all users.'']"

definition users_item :: path_item where
  "users_item = [''get'' \<mapsto> users_op]"

definition users_spec :: paths where
  "users_spec = [''/users'' \<mapsto> users_item]"

text \<open>
  A second operation under the same path, and a message function for the examples: in them
  no block fails the validation, so no message is ever written.
\<close>

definition remove_op :: operation where
  "remove_op = [''summary'' \<mapsto> ''Remove users'', ''description'' \<mapsto> ''Removes all users.'']"

definition two_ops_spec :: paths where
  "two_ops_spec = [''/users'' \<mapsto> [''get'' \<mapsto> users_op, ''delete'' \<mapsto> remove_op]]"

definition no_message :: error_text where
  "no_message d errs = []"

definition users_args :: "string option \<Rightarrow> EndpointArguments" where
  "users_args m =
     \<lparr> path = ''/users'', http_method = m, endpoint_title = None, endpoint_icon = None,
       tips = None \<rparr>"

section \<open>Notions for stating the claims about the parser\<close>

text \<open>
  A continuation line, as the loop reads it: a line that is no key line and matches the
  continuation pattern; it is appended to the tips when the current key is \<open>tips\<close>, as
  \<open>tip_of\<close> of the line. A block has a path when one of its lines is a key line for \<open>path\<close>
  with a value that is not blank.
\<close>

definition is_continuation :: "string \<Rightarrow> bool" where
  "is_continuation l = (arg_match l = None \<and> continuation_match l \<noteq> None)"

definition tip_of :: "string \<Rightarrow> string" where
  "tip_of l = (case continuation_match l of None \<Rightarrow> [] | Some g \<Rightarrow> strip g)"

definition has_path :: "string \<Rightarrow> bool" where
  "has_path tag_content =
     list_ex (\<lambda>l. case arg_match l of None \<Rightarrow> False | Some (k, v) \<Rightarrow> k = ''path'' \<and> strip v \<noteq> [])
       (splitlines tag_content)"

definition field_names :: "string list" where
  "field_names = [''path'', ''http_method'', ''endpoint_title'', ''endpoint_icon'', ''tips'']"

text \<open>Two dictionaries, read by their keys, agree on the fields.\<close>

definition agree :: "(string \<rightharpoonup> argval) \<Rightarrow> (string \<rightharpoonup> argval) \<Rightarrow> bool" where
  "agree a a' = (\<forall>f \<in> set field_names. a f = a' f)"

text \<open>
  The key of the last key line among some lines; and the relation between the loop with
  and without some tips \<open>T\<close> collected on the way: the first state holds them, the
  second does not, and the dictionaries agree on the fields. The dictionary of the loop
  never holds a list that is not empty under \<open>tips\<close>.
\<close>

definition last_key :: "string list \<Rightarrow> string option" where
  "last_key ls = (case rev (List.map_filter arg_match ls) of [] \<Rightarrow> None | (k, v) # r \<Rightarrow> Some k)"

definition placeholder :: "dict \<Rightarrow> bool" where
  "placeholder d = (\<forall>t ts. map_of d ''tips'' \<noteq> Some (Lst (t # ts)))"

definition apart :: "string list \<Rightarrow> parse_state \<Rightarrow> parse_state \<Rightarrow> bool" where
  "apart T a b =
     ((\<exists>T1 X. tips_acc a = T1 @ T @ X \<and> tips_acc b = T1 @ X) \<and>
      agree (map_of (arguments a)) (map_of (arguments b)) \<and> placeholder (arguments b))"

section \<open>Capital letters\<close>

lemma lower_char_plus_32:
  "is_upper c \<Longrightarrow> (of_char (lower_char c) :: nat) = of_char c + 32"
proof (cases c)
  case (Char b0 b1 b2 b3 b4 b5 b6 b7)
  assume u: "is_upper c"
  have "\<not> b5"
  proof
    assume b5
    with u Char show False
      by (cases b0; cases b1; cases b2; cases b3; cases b4; cases b6; cases b7;
          simp add: is_upper_def less_eq_char_def)
  qed
  with u Char show ?thesis by (simp add: lower_char_def)
qed

section \<open>Facts about the search\<close>

lemma find_first_None: "find_first pat s = None \<longleftrightarrow> \<not> sublist pat s"
  by (induction s) (auto simp: sublist_Cons_right split: option.splits)

lemma prefix_shorter:
  assumes "prefix p (xs @ ys)" and "length p \<le> length xs"
  shows "prefix p xs"
  using assms by (metis prefix_length_prefix prefixI prefix_order.dual_order.refl append_prefixD prefix_append)

lemma find_first_earliest:
  "find_first pat s = Some (a, b) \<Longrightarrow> pat \<noteq> [] \<Longrightarrow> \<not> sublist pat (a @ butlast pat)"
proof (induction s arbitrary: a b)
  case Nil
  then show ?case by (simp split: if_splits)
next
  case (Cons c cs)
  show ?case
  proof (cases "prefix pat (c # cs)")
    case True
    with Cons.prems have "a = []" by auto
    moreover have "length (butlast pat) < length pat" using Cons.prems(2) by simp
    ultimately show ?thesis using sublist_length_le by fastforce
  next
    case False
    with Cons.prems obtain a' where a': "find_first pat cs = Some (a', b)" "a = c # a'"
      by (auto split: option.splits)
    from Cons.IH [OF a'(1) Cons.prems(2)] have ih: "\<not> sublist pat (a' @ butlast pat)" .
    from find_first_split [OF a'(1)] have cs: "cs = a' @ pat @ b" .
    have "\<not> prefix pat (c # a' @ butlast pat)"
    proof
      assume "prefix pat (c # a' @ butlast pat)"
      moreover have "prefix (c # a' @ butlast pat) (c # cs)"
        unfolding cs using Cons.prems(2)
        by (metis append_butlast_last_id append.assoc prefixI Cons_prefix_Cons same_prefix_prefix)
      ultimately have "prefix pat (c # cs)" by (rule prefix_order.trans)
      with False show False by simp
    qed
    with ih show ?thesis unfolding a'(2) by (simp add: sublist_Cons_right)
  qed
qed

lemma find_first_unique:
  "\<not> sublist pat (a @ butlast pat) \<Longrightarrow> find_first pat (a @ pat @ b) = Some (a, b)"
proof (induction a)
  case Nil
  then have "pat \<noteq> []" by auto
  then obtain p ps where "pat = p # ps" by (cases pat) auto
  then show ?case by simp
next
  case (Cons c a)
  then have ne: "pat \<noteq> []" by auto
  from Cons.prems have n1: "\<not> prefix pat (c # a @ butlast pat)" and n2: "\<not> sublist pat (a @ butlast pat)"
    by (auto simp: sublist_Cons_right)
  have "\<not> prefix pat (c # a @ pat @ b)"
  proof
    assume p: "prefix pat (c # a @ pat @ b)"
    have "c # a @ pat @ b = (c # a @ butlast pat) @ (last pat # b)"
      using ne by simp
    with p have "prefix pat ((c # a @ butlast pat) @ (last pat # b))" by simp
    moreover have "length pat \<le> length (c # a @ butlast pat)" using ne by simp
    ultimately have "prefix pat (c # a @ butlast pat)" by (rule prefix_shorter)
    with n1 show False by simp
  qed
  with Cons.IH [OF n2] show ?case by simp
qed

lemma earliest_le:
  assumes "\<not> sublist pat (pre @ butlast pat)" and "pre @ pat @ r = a @ pat @ t"
  shows "length pre \<le> length a"
proof (rule ccontr)
  assume "\<not> length pre \<le> length a"
  then have lt: "length a < length pre" by simp
  from assms(1) have ne: "pat \<noteq> []" by auto
  have "butlast pat @ [last pat] = pat" using ne by simp
  then have "(pre @ butlast pat) @ (last pat # r) = pre @ pat @ r"
    by (metis append.assoc append_Cons append_Nil)
  with assms(2) have "prefix (a @ pat) ((pre @ butlast pat) @ (last pat # r))"
    by (simp add: prefix_def)
  moreover have "length (a @ pat) \<le> length (pre @ butlast pat)" using lt ne by simp
  ultimately have "prefix (a @ pat) (pre @ butlast pat)" by (rule prefix_shorter)
  then have "sublist pat (pre @ butlast pat)"
    by (auto simp: prefix_def sublist_def)
  with assms(1) show False by simp
qed

lemma docs_pattern_search_Some_iff:
  "docs_pattern_search s = Some (pre, body, rest) \<longleftrightarrow>
     s = pre @ OPEN @ body @ CLOSE @ rest \<and> \<not> sublist OPEN (pre @ butlast OPEN) \<and>
     \<not> sublist CLOSE (body @ butlast CLOSE)"
proof
  assume h: "docs_pattern_search s = Some (pre, body, rest)"
  then obtain r where r: "find_first OPEN s = Some (pre, r)" "find_first CLOSE r = Some (body, rest)"
    by (auto simp: docs_pattern_search_def split: option.splits)
  have "OPEN \<noteq> []" "CLOSE \<noteq> []" by (simp_all add: OPEN_def CLOSE_def)
  with r show "s = pre @ OPEN @ body @ CLOSE @ rest \<and> \<not> sublist OPEN (pre @ butlast OPEN) \<and>
     \<not> sublist CLOSE (body @ butlast CLOSE)"
    using find_first_earliest docs_pattern_search_split [OF h] by blast
next
  assume "s = pre @ OPEN @ body @ CLOSE @ rest \<and> \<not> sublist OPEN (pre @ butlast OPEN) \<and>
     \<not> sublist CLOSE (body @ butlast CLOSE)"
  then show "docs_pattern_search s = Some (pre, body, rest)"
    by (simp add: docs_pattern_search_def find_first_unique)
qed

lemma docs_pattern_search_None_iff:
  "docs_pattern_search s = None \<longleftrightarrow> \<not> (\<exists>a b c. s = a @ OPEN @ b @ CLOSE @ c)"
proof
  assume n: "docs_pattern_search s = None"
  show "\<not> (\<exists>a b c. s = a @ OPEN @ b @ CLOSE @ c)"
  proof
    assume "\<exists>a b c. s = a @ OPEN @ b @ CLOSE @ c"
    then obtain a b c where s: "s = a @ OPEN @ b @ CLOSE @ c" by blast
    then have "sublist OPEN s" by (auto simp: sublist_def)
    then obtain pre r where f: "find_first OPEN s = Some (pre, r)"
      using find_first_None [of OPEN s] by (cases "find_first OPEN s") auto
    with n have "find_first CLOSE r = None"
      by (auto simp: docs_pattern_search_def split: option.splits)
    then have nc: "\<not> sublist CLOSE r" by (simp add: find_first_None)
    have ne: "OPEN \<noteq> []" by (simp add: OPEN_def)
    from find_first_split [OF f] have s': "s = pre @ OPEN @ r" .
    from find_first_earliest [OF f ne] have e: "\<not> sublist OPEN (pre @ butlast OPEN)" .
    from s s' have eq: "pre @ OPEN @ r = a @ OPEN @ (b @ CLOSE @ c)" by simp
    from earliest_le [OF e eq] have le: "length pre \<le> length a" .
    have "r = drop (length pre + length OPEN) s" unfolding s' by simp
    also have "\<dots> = drop (length pre + length OPEN) (a @ OPEN) @ b @ CLOSE @ c"
      unfolding s using le by simp
    finally have "sublist CLOSE r" by (metis sublist_appendI append.assoc)
    with nc show False by simp
  qed
next
  assume "\<not> (\<exists>a b c. s = a @ OPEN @ b @ CLOSE @ c)"
  then show "docs_pattern_search s = None"
    by (cases "docs_pattern_search s") (auto dest: docs_pattern_search_split)
qed




lemma docs_pattern_blocks_facts:
  "docs_pattern_blocks s = (bs, tail) \<Longrightarrow>
     s = concat (map (\<lambda>(pre, body). pre @ OPEN @ body @ CLOSE) bs) @ tail \<and>
     (\<forall>(pre, body) \<in> set bs.
        \<not> sublist OPEN (pre @ butlast OPEN) \<and> \<not> sublist CLOSE (body @ butlast CLOSE)) \<and>
     \<not> (\<exists>a b c. tail = a @ OPEN @ b @ CLOSE @ c)"
proof (induction s arbitrary: bs tail rule: docs_pattern_blocks.induct)
  case (1 s)
  show ?case
  proof (cases "docs_pattern_search s")
    case None
    with "1.prems" have "bs = []" "tail = s" by auto
    with None show ?thesis by (simp add: docs_pattern_search_None_iff)
  next
    case (Some t)
    then obtain pre body rest where t: "docs_pattern_search s = Some (pre, body, rest)"
      by (cases t) auto
    obtain bs' tail' where b': "docs_pattern_blocks rest = (bs', tail')"
      by (cases "docs_pattern_blocks rest") auto
    with t "1.prems" have bs: "bs = (pre, body) # bs'" "tail = tail'" by auto
    from t have "s = pre @ OPEN @ body @ CLOSE @ rest" "\<not> sublist OPEN (pre @ butlast OPEN)"
      "\<not> sublist CLOSE (body @ butlast CLOSE)"
      by (simp_all add: docs_pattern_search_Some_iff)
    with "1.IH" [OF t refl refl b'] bs show ?thesis by simp
  qed
qed


section \<open>Facts about the loop over the lines\<close>

lemma map_of_dict_set: "map_of (dict_set k v d) = (map_of d)(k \<mapsto> v)"
  by (induction d) auto

lemma parse_lines_append: "parse_lines st (xs @ ys) = parse_lines (parse_lines st xs) ys"
  by (simp add: parse_lines_def)

lemma parse_lines_Cons: "parse_lines st (x # xs) = parse_lines (parse_line st x) xs"
  by (simp add: parse_lines_def)

lemma parse_lines_Nil: "parse_lines st [] = st"
  by (simp add: parse_lines_def)

lemma parse_line_key:
  "arg_match l = Some (k, v) \<Longrightarrow>
   parse_line st l =
     \<lparr> arguments =
         (if strip v \<noteq> [] then dict_set k (Str (strip v)) (arguments st)
          else if k = ''tips'' then dict_set k (Lst []) (arguments st)
          else arguments st),
       tips_acc = tips_acc st,
       current_key = Some k \<rparr>"
  by (simp add: parse_line_def)

lemma parse_line_continuation:
  "is_continuation l \<Longrightarrow> current_key st = Some ''tips'' \<Longrightarrow>
   parse_line st l = st\<lparr> tips_acc := tips_acc st @ [tip_of l] \<rparr>"
  by (auto simp: parse_line_def is_continuation_def tip_of_def)

lemma parse_lines_continuations:
  "\<forall>l \<in> set ls. is_continuation l \<Longrightarrow> current_key st = Some ''tips'' \<Longrightarrow>
   parse_lines st ls = st\<lparr> tips_acc := tips_acc st @ map tip_of ls \<rparr>"
proof (induction ls arbitrary: st)
  case Nil
  then show ?case by (simp add: parse_lines_Nil)
next
  case (Cons l ls)
  then have "parse_line st l = st\<lparr> tips_acc := tips_acc st @ [tip_of l] \<rparr>"
    by (simp add: parse_line_continuation)
  with Cons show ?case by (simp add: parse_lines_Cons)
qed

lemma parse_line_other:
  "\<not> is_continuation l \<Longrightarrow> tips_acc (parse_line st l) = tips_acc st"
  by (auto simp: parse_line_def is_continuation_def split: option.splits)

lemma parse_lines_other:
  "\<forall>l \<in> set ls. \<not> is_continuation l \<Longrightarrow> tips_acc (parse_lines st ls) = tips_acc st"
  by (induction ls arbitrary: st) (simp_all add: parse_lines_Nil parse_lines_Cons parse_line_other)

lemma parse_line_tips_grow: "\<exists>B. tips_acc (parse_line st l) = tips_acc st @ B"
  by (auto simp: parse_line_def split: option.splits)

lemma parse_lines_tips_grow: "\<exists>B. tips_acc (parse_lines st ls) = tips_acc st @ B"
proof (induction ls arbitrary: st)
  case Nil
  then show ?case by (simp add: parse_lines_Nil)
next
  case (Cons l ls)
  obtain B1 where "tips_acc (parse_line st l) = tips_acc st @ B1"
    using parse_line_tips_grow by blast
  moreover obtain B2 where "tips_acc (parse_lines (parse_line st l) ls) = tips_acc (parse_line st l) @ B2"
    using Cons.IH by blast
  ultimately show ?case by (simp add: parse_lines_Cons)
qed

lemma finish_tips:
  "tips_acc st \<noteq> [] \<Longrightarrow> map_of (finish st) ''tips'' = Some (Lst (tips_acc st))"
  by (simp add: finish_def map_of_dict_set)

lemma finish_no_tips:
  "tips_acc st = [] \<Longrightarrow> finish st = arguments st"
  by (simp add: finish_def)

lemma finish_other: "k \<noteq> ''tips'' \<Longrightarrow> map_of (finish st) k = map_of (arguments st) k"
  by (simp add: finish_def map_of_dict_set)

lemma validate_tips: "validate a = Inr args \<Longrightarrow> tips args = list_of (a ''tips'')"
  by (auto simp: validate_def split: if_splits)

lemma extract_arguments_Inr:
  "extract_arguments fmt c = Inr args \<longleftrightarrow> validate (map_of (raw_arguments c)) = Inr args"
  by (auto simp: extract_arguments_def split: sum.splits)

lemma extract_arguments_tips:
  "extract_arguments fmt c = Inr args \<Longrightarrow> tips args = list_of (map_of (raw_arguments c) ''tips'')"
  by (simp add: extract_arguments_Inr validate_tips)

lemma splitlines_from_no_lf:
  "CHR 0x0A \<notin> set cur \<Longrightarrow> \<forall>l \<in> set (splitlines_from cur s). CHR 0x0A \<notin> set l"
proof (induction cur s rule: splitlines_from.induct)
  case (1 cur)
  then show ?case by simp
next
  case (2 cur c cs)
  show ?case
  proof (cases "c = CHR 0x0D")
    case True
    with 2 show ?thesis by (cases cs) auto
  next
    case False
    with 2 show ?thesis by (auto simp: is_linebreak_def)
  qed
qed

lemma splitlines_no_lf: "l \<in> set (splitlines s) \<Longrightarrow> CHR 0x0A \<notin> set l"
  using splitlines_from_no_lf [of "[]" s] by (simp add: splitlines_def)

lemma takeWhile_no_lf: "CHR 0x0A \<notin> set l \<Longrightarrow> takeWhile (\<lambda>x. x \<noteq> CHR 0x0A) l = l"
  by (induction l) auto

lemma isspace_space: "isspace CHR '' ''"
  by (simp add: isspace_def)

lemma continuation_match_indented:
  "c \<noteq> [] \<Longrightarrow> CHR 0x0A \<notin> set c \<Longrightarrow> continuation_match (''    '' @ c) = Some c"
  by (simp add: continuation_match_def isspace_space takeWhile_no_lf)

lemma arg_match_indented: "arg_match (''    '' @ x) = arg_match x"
  by (simp add: arg_match_def isspace_space)

lemma strip_nonempty: "c \<noteq> [] \<Longrightarrow> \<not> isspace (hd c) \<Longrightarrow> strip c \<noteq> []"
  by (cases c) (auto simp: strip_def)

lemma continuation_match_two:
  "d \<noteq> [] \<Longrightarrow> \<not> isspace (hd d) \<Longrightarrow> continuation_match (''  '' @ d) = None"
  by (cases d) (auto simp: continuation_match_def)



lemma parse_line_skipped:
  "arg_match l = None \<Longrightarrow> current_key st \<noteq> Some ''tips'' \<Longrightarrow> parse_line st l = st"
  by (simp add: parse_line_def)

lemma parse_lines_skipped:
  "\<forall>l \<in> set ls. arg_match l = None \<Longrightarrow> current_key st \<noteq> Some ''tips'' \<Longrightarrow>
   parse_lines st ls = st"
  by (induction ls) (simp_all add: parse_lines_Nil parse_lines_Cons parse_line_skipped)

text \<open>A line of four spaces and a content that is no key line, in a block.\<close>

lemma indented_is_continuation:
  assumes "c \<noteq> []" and "CHR 0x0A \<notin> set c" and "arg_match c = None"
  shows "is_continuation (''    '' @ c)" and "tip_of (''    '' @ c) = strip c"
proof -
  from assms(1,2) have m: "continuation_match (''    '' @ c) = Some c"
    by (rule continuation_match_indented)
  from assms(3) have "arg_match (''    '' @ c) = None" by (simp only: arg_match_indented)
  with m show "is_continuation (''    '' @ c)" by (simp only: is_continuation_def) simp
  from m show "tip_of (''    '' @ c) = strip c" by (simp only: tip_of_def) simp
qed

lemma indented_all:
  assumes "\<forall>c \<in> set cs. c \<noteq> [] \<and> CHR 0x0A \<notin> set c \<and> arg_match c = None"
  shows "\<forall>l \<in> set (map ((@) ''    '') cs). is_continuation l"
    and "map tip_of (map ((@) ''    '') cs) = map strip cs"
  using assms indented_is_continuation by (auto simp del: append.simps)

lemma validation_errors_agree: "agree a a' \<Longrightarrow> validation_errors a = validation_errors a'"
  by (simp add: agree_def field_names_def validation_errors_def required_str_def
      optional_str_def optional_list_def)

lemma validate_agree: "agree a a' \<Longrightarrow> validate a = validate a'"
  using validation_errors_agree [of a a']
  by (simp add: validate_def) (simp add: agree_def field_names_def)

lemma agree_upd_other: "k \<notin> set field_names \<Longrightarrow> agree (a(k \<mapsto> x)) a"
  by (auto simp: agree_def)

lemma agree_upd_same: "agree a a' \<Longrightarrow> agree (a(k \<mapsto> x)) (a'(k \<mapsto> x))"
  by (auto simp: agree_def)

lemma agree_refl: "agree a a"
  by (simp add: agree_def)

lemma agree_sym: "agree a b \<Longrightarrow> agree b a"
  by (simp add: agree_def)

lemma placeholder_parse_line: "placeholder (arguments st) \<Longrightarrow> placeholder (arguments (parse_line st l))"
  by (auto simp: parse_line_def placeholder_def map_of_dict_set split: option.splits)

lemma placeholder_parse_lines: "placeholder (arguments st) \<Longrightarrow> placeholder (arguments (parse_lines st ls))"
  by (induction ls arbitrary: st) (simp_all add: parse_lines_Nil parse_lines_Cons placeholder_parse_line)

lemma placeholder_initial: "placeholder (arguments initial_state)"
  by (simp add: placeholder_def initial_state_def)

lemma current_key_parse_line:
  "current_key (parse_line st l) = (case arg_match l of None \<Rightarrow> current_key st | Some (k, v) \<Rightarrow> Some k)"
  by (auto simp: parse_line_def split: option.splits)

lemma last_key_snoc:
  "last_key (ls @ [l]) = (case arg_match l of None \<Rightarrow> last_key ls | Some (k, v) \<Rightarrow> Some k)"
  by (auto simp: last_key_def List.map_filter_def split: option.splits)

lemma current_key_parse_lines:
  "current_key (parse_lines st ls) = (case last_key ls of None \<Rightarrow> current_key st | Some k \<Rightarrow> Some k)"
proof (induction ls rule: rev_induct)
  case Nil
  then show ?case by (simp add: parse_lines_Nil last_key_def List.map_filter_def)
next
  case (snoc l ls)
  then show ?case
    by (simp add: parse_lines_append parse_lines_Cons parse_lines_Nil current_key_parse_line
        last_key_snoc split: option.splits)
qed

lemma current_key_initial: "current_key (parse_lines initial_state ls) = last_key ls"
  by (simp add: current_key_parse_lines initial_state_def split: option.splits)

lemma parse_lines_run:
  "\<forall>m \<in> set run. arg_match m = None \<Longrightarrow>
   parse_lines st run =
     (if current_key st = Some ''tips''
      then st\<lparr> tips_acc := tips_acc st @ map tip_of (filter is_continuation run) \<rparr>
      else st)"
proof (induction run arbitrary: st)
  case Nil
  then show ?case by (simp add: parse_lines_Nil)
next
  case (Cons m run)
  show ?case
  proof (cases "current_key st = Some ''tips''")
    case False
    with Cons.prems have "parse_line st m = st" by (simp add: parse_line_skipped)
    with Cons False show ?thesis by (simp add: parse_lines_Cons)
  next
    case True
    show ?thesis
    proof (cases "is_continuation m")
      case c: True
      with True have "parse_line st m = st\<lparr> tips_acc := tips_acc st @ [tip_of m] \<rparr>"
        by (simp add: parse_line_continuation)
      with Cons True c show ?thesis by (simp add: parse_lines_Cons)
    next
      case c: False
      with Cons.prems have "parse_line st m = st"
        by (simp add: parse_line_def is_continuation_def)
      with Cons True c show ?thesis by (simp add: parse_lines_Cons)
    qed
  qed
qed

lemma apart_parse_line:
  assumes "apart T a b" and "current_key a = current_key b \<or> arg_match l \<noteq> None"
  shows "apart T (parse_line a l) (parse_line b l) \<and>
         current_key (parse_line a l) = current_key (parse_line b l)"
proof (cases "arg_match l")
  case None
  with assms(2) have ck: "current_key a = current_key b" by simp
  from assms(1) obtain T1 X where t: "tips_acc a = T1 @ T @ X" "tips_acc b = T1 @ X"
    and ag: "agree (map_of (arguments a)) (map_of (arguments b))" and ph: "placeholder (arguments b)"
    by (auto simp: apart_def)
  show ?thesis
  proof (cases "current_key a = Some ''tips'' \<and> continuation_match l \<noteq> None")
    case True
    then obtain g where g: "continuation_match l = Some g" by auto
    with True None ck have "parse_line a l = a\<lparr> tips_acc := tips_acc a @ [strip g] \<rparr>"
      "parse_line b l = b\<lparr> tips_acc := tips_acc b @ [strip g] \<rparr>"
      by (simp_all add: parse_line_def)
    moreover have "tips_acc a @ [strip g] = T1 @ T @ (X @ [strip g])"
      "tips_acc b @ [strip g] = T1 @ (X @ [strip g])"
      using t by simp_all
    ultimately show ?thesis using ag ph ck unfolding apart_def by (simp del: append_assoc) blast
  next
    case False
    with None ck have "parse_line a l = a" "parse_line b l = b"
      by (auto simp: parse_line_def split: option.splits)
    with assms(1) ck show ?thesis by simp
  qed
next
  case (Some kv)
  obtain k v where kv: "kv = (k, v)" by (cases kv)
  from assms(1) obtain T1 X where t: "tips_acc a = T1 @ T @ X" "tips_acc b = T1 @ X"
    and ag: "agree (map_of (arguments a)) (map_of (arguments b))" and ph: "placeholder (arguments b)"
    by (auto simp: apart_def)
  from Some kv have m: "arg_match l = Some (k, v)" by simp
  have "placeholder (arguments (parse_line b l))" using ph by (rule placeholder_parse_line)
  moreover have "agree (map_of (arguments (parse_line a l))) (map_of (arguments (parse_line b l)))"
    using ag by (simp add: parse_line_key [OF m] map_of_dict_set agree_upd_same)
  moreover have "tips_acc (parse_line a l) = T1 @ T @ X" "tips_acc (parse_line b l) = T1 @ X"
    "current_key (parse_line a l) = current_key (parse_line b l)"
    using t by (simp_all add: parse_line_key [OF m])
  ultimately show ?thesis unfolding apart_def by blast
qed

lemma apart_parse_lines:
  "apart T a b \<Longrightarrow> current_key a = current_key b \<Longrightarrow>
   apart T (parse_lines a ls) (parse_lines b ls)"
proof (induction ls arbitrary: a b)
  case Nil
  then show ?case by (simp add: parse_lines_Nil)
next
  case (Cons l ls)
  from apart_parse_line [of T a b l] Cons.prems
  have "apart T (parse_line a l) (parse_line b l)"
    "current_key (parse_line a l) = current_key (parse_line b l)"
    by blast+
  from Cons.IH [OF this] show ?case by (simp add: parse_lines_Cons)
qed

lemma apart_rest:
  assumes "apart T a b" and "rest = [] \<or> arg_match (hd rest) \<noteq> None"
  shows "apart T (parse_lines a rest) (parse_lines b rest)"
proof (cases rest)
  case Nil
  with assms(1) show ?thesis by (simp add: parse_lines_Nil)
next
  case (Cons r rs)
  with assms(2) have "arg_match r \<noteq> None" by simp
  with apart_parse_line [of T a b r] assms(1)
  have "apart T (parse_line a r) (parse_line b r)"
    "current_key (parse_line a r) = current_key (parse_line b r)"
    by blast+
  from apart_parse_lines [OF this] Cons show ?thesis by (simp add: parse_lines_Cons)
qed

lemma apart_finish_same:
  assumes "apart [] a b"
  shows "agree (map_of (finish a)) (map_of (finish b))"
proof -
  from assms have "tips_acc a = tips_acc b" and "agree (map_of (arguments a)) (map_of (arguments b))"
    by (auto simp: apart_def)
  then show ?thesis by (simp add: finish_def map_of_dict_set agree_upd_same)
qed

lemma apart_finish_differs:
  assumes "apart T a b" and "T \<noteq> []"
  shows "map_of (finish a) ''tips'' \<noteq> map_of (finish b) ''tips''"
proof -
  from assms(1) obtain T1 X where t: "tips_acc a = T1 @ T @ X" "tips_acc b = T1 @ X"
    and ph: "placeholder (arguments b)"
    by (auto simp: apart_def)
  from t assms(2) have a: "map_of (finish a) ''tips'' = Some (Lst (T1 @ T @ X))"
    by (simp add: finish_tips)
  show ?thesis
  proof (cases "T1 @ X = []")
    case True
    with t have "finish b = arguments b" by (simp add: finish_no_tips)
    moreover from assms(2) obtain u us where "T1 @ T @ X = u # us" by (cases "T1 @ T @ X") auto
    ultimately show ?thesis using a ph unfolding placeholder_def by metis
  next
    case False
    with t have "map_of (finish b) ''tips'' = Some (Lst (T1 @ X))" by (simp add: finish_tips)
    moreover have "length (T1 @ T @ X) \<noteq> length (T1 @ X)" using assms(2) by simp
    ultimately show ?thesis using a by auto
  qed
qed

lemma unknown_key_apart:
  assumes "k \<notin> set field_names" and "arg_match l = Some (k, v)"
  shows "apart
           (if last_key pre = Some ''tips''
            then map tip_of (filter is_continuation (takeWhile (\<lambda>m. arg_match m = None) post))
            else [])
           (parse_lines initial_state (pre @ post)) (parse_lines initial_state (pre @ l # post))"
proof -
  define st where "st = parse_lines initial_state pre"
  define run where "run = takeWhile (\<lambda>m. arg_match m = None) post"
  define T where "T = (if last_key pre = Some ''tips'' then map tip_of (filter is_continuation run) else [])"
  define rest where "rest = dropWhile (\<lambda>m. arg_match m = None) post"
  have post: "post = run @ rest" by (simp add: run_def rest_def)
  have nk: "\<forall>m \<in> set run. arg_match m = None"
    unfolding run_def by (auto dest: set_takeWhileD)
  have r: "rest = [] \<or> arg_match (hd rest) \<noteq> None"
    unfolding rest_def using hd_dropWhile [of "\<lambda>m. arg_match m = None" post] by blast
  have ck: "current_key st = last_key pre" by (simp add: st_def current_key_initial)
  have kt: "k \<noteq> ''tips''" using assms(1) by (auto simp: field_names_def)
  define a0 where "a0 = parse_lines st run"
  define b0 where "b0 = parse_lines (parse_line st l) run"
  have ckb: "current_key (parse_line st l) \<noteq> Some ''tips''"
    using kt by (simp add: parse_line_key [OF assms(2)])
  have b0: "b0 = parse_line st l" unfolding b0_def using nk ckb by (rule parse_lines_skipped)
  have a0: "tips_acc a0 = tips_acc st @ T @ []" "arguments a0 = arguments st"
    unfolding a0_def T_def by (simp_all add: parse_lines_run [OF nk] ck)
  have tb: "tips_acc b0 = tips_acc st @ []" by (simp add: b0 parse_line_key [OF assms(2)])
  have "placeholder (arguments st)"
    unfolding st_def by (intro placeholder_parse_lines placeholder_initial)
  then have ph: "placeholder (arguments b0)" unfolding b0 by (rule placeholder_parse_line)
  have "agree (map_of (arguments b0)) (map_of (arguments st))"
    unfolding b0 using assms(1) kt
    by (simp add: parse_line_key [OF assms(2)] map_of_dict_set agree_upd_other agree_refl)
  then have ag: "agree (map_of (arguments a0)) (map_of (arguments b0))"
    using a0(2) by (simp add: agree_sym)
  from a0(1) tb ag ph have "apart T a0 b0" unfolding apart_def by blast
  from apart_rest [OF this r]
  have "apart T (parse_lines a0 rest) (parse_lines b0 rest)" .
  moreover have "parse_lines initial_state (pre @ post) = parse_lines a0 rest"
    unfolding a0_def st_def by (subst post) (simp only: parse_lines_append)
  moreover have "parse_lines initial_state (pre @ l # post) = parse_lines b0 rest"
    unfolding b0_def st_def by (subst post) (simp only: parse_lines_append parse_lines_Cons)
  ultimately show ?thesis unfolding T_def run_def by simp
qed

lemma no_path_parse_line:
  "map_of (arguments st) ''path'' = None \<Longrightarrow>
   \<not> (case arg_match l of None \<Rightarrow> False | Some (k, v) \<Rightarrow> k = ''path'' \<and> strip v \<noteq> []) \<Longrightarrow>
   map_of (arguments (parse_line st l)) ''path'' = None"
  by (auto simp: parse_line_def map_of_dict_set split: option.splits)

lemma no_path_parse_lines:
  "map_of (arguments st) ''path'' = None \<Longrightarrow>
   \<not> list_ex (\<lambda>l. case arg_match l of None \<Rightarrow> False | Some (k, v) \<Rightarrow> k = ''path'' \<and> strip v \<noteq> []) ls \<Longrightarrow>
   map_of (arguments (parse_lines st ls)) ''path'' = None"
proof (induction ls arbitrary: st)
  case Nil
  then show ?case by (simp add: parse_lines_Nil)
next
  case (Cons l ls)
  from Cons.prems have "map_of (arguments (parse_line st l)) ''path'' = None"
    by (intro no_path_parse_line) simp_all
  with Cons show ?case by (simp add: parse_lines_Cons)
qed

lemma raw_no_path: "\<not> has_path c \<Longrightarrow> map_of (raw_arguments c) ''path'' = None"
  using no_path_parse_lines [of initial_state "splitlines c"]
  by (simp add: has_path_def raw_arguments_def finish_other initial_state_def)

lemma validate_no_path: "a ''path'' = None \<Longrightarrow> \<exists>errs. validate a = Inl ((''path'', Missing) # errs)"
  by (simp add: validate_def validation_errors_def required_str_def)

text \<open>
  A block with no \<open>path\<close> key of a value that is not blank: the validation reports the
  field \<open>path\<close> as missing, first among its errors, and the callback returns the error
  text, which ends with the library's message for the dictionary and these errors.
\<close>

lemma replace_no_path:
  assumes "\<not> has_path c"
  shows "\<exists>errs. replace_docs_endpoint fmt ps c =
           Inr (''**Error parsing docs.endpoint**: Invalid arguments in docs.endpoint: '' @
                fmt (raw_arguments c) ((''path'', Missing) # errs))"
proof -
  from raw_no_path [OF assms] validate_no_path [of "map_of (raw_arguments c)"]
  obtain errs where "validate (map_of (raw_arguments c)) = Inl ((''path'', Missing) # errs)" by blast
  then have "replace_docs_endpoint fmt ps c =
      Inr (''**Error parsing docs.endpoint**: Invalid arguments in docs.endpoint: '' @
           fmt (raw_arguments c) ((''path'', Missing) # errs))"
    by (simp add: replace_docs_endpoint_def extract_arguments_def catch_value_error_def)
  then show ?thesis by blast
qed

section \<open>The renderer\<close>

text \<open>
  C7. The block \<open>path: /users\<close>, \<open>http_method: GET\<close> against the specification whose
  \<open>/users\<close>, \<open>get\<close> has the summary \<open>List users\<close> and the description \<open>Returns all users.\<close> is
  replaced by the heading line with \<open>GET\<close>, \<open>/users\<close> and \<open>List users\<close> (the only heading,
  as the block gives no title), an empty line, and the paragraph \<open>Returns all users.\<close>.
  The operation is the one the path item holds under the lowercased method, and the path
  item is the one the specification holds under the path as written; an unknown path
  raises. So two methods that differ only in case find the same operation, \<open>/Users\<close> is
  not found where \<open>/users\<close> is, \<open>Delete\<close> finds the operation under \<open>delete\<close> and not the one
  under \<open>get\<close>, and an operation filed under \<open>GET\<close> in capitals is not found.
\<close>

theorem users_example:
  \<open>on_page_markdown fmt users_spec (''::: docs.endpoint\<newline>path: /users\<newline>http_method: GET\<newline>:::'') =
     Inr (''### <span class="http-get">GET</span>` /users` -- List users { : data-toc-label="GET List users" : .styled-as-h2 }\<newline>'' @
          ''\<newline>'' @
          ''Returns all users.\<newline>'' @
          ''\<newline>'') \<and>
   (ps (path args) = Some item \<and> http_method args = Some m \<longrightarrow>
      lookup_method_spec ps args = Inr (item (lower m))) \<and>
   (ps (path args) = None \<longrightarrow> lookup_method_spec ps args = Inl AttributeError) \<and>
   (lower m = lower m' \<longrightarrow>
      lookup_method_spec ps (args\<lparr>http_method := Some m\<rparr>) =
      lookup_method_spec ps (args\<lparr>http_method := Some m'\<rparr>)) \<and>
   lookup_method_spec users_spec ((users_args (Some ''GET''))\<lparr>path := ''/Users''\<rparr>) = Inl AttributeError \<and>
   replace_docs_endpoint fmt two_ops_spec ''path: /users\<newline>http_method: Delete'' =
     Inr (''### <span class="http-delete">Delete</span>` /users` -- Remove users { : data-toc-label="Delete Remove users" : .styled-as-h2 }\<newline>'' @
          ''\<newline>'' @
          ''Removes all users.\<newline>'' @
          ''\<newline>'') \<and>
   replace_docs_endpoint fmt [''/users'' \<mapsto> [''GET'' \<mapsto> users_op]] ''path: /users\<newline>http_method: GET'' =
     Inl TypeError\<close>
proof (intro conjI)
  show \<open>on_page_markdown fmt users_spec (''::: docs.endpoint\<newline>path: /users\<newline>http_method: GET\<newline>:::'') =
     Inr (''### <span class="http-get">GET</span>` /users` -- List users { : data-toc-label="GET List users" : .styled-as-h2 }\<newline>'' @
          ''\<newline>'' @
          ''Returns all users.\<newline>'' @
          ''\<newline>'')\<close>
    by code_simp
  show "ps (path args) = Some item \<and> http_method args = Some m \<longrightarrow>
      lookup_method_spec ps args = Inr (item (lower m))"
    by (simp add: lookup_method_spec_def)
  show "ps (path args) = None \<longrightarrow> lookup_method_spec ps args = Inl AttributeError"
    by (simp add: lookup_method_spec_def)
  show "lower m = lower m' \<longrightarrow>
      lookup_method_spec ps (args\<lparr>http_method := Some m\<rparr>) =
      lookup_method_spec ps (args\<lparr>http_method := Some m'\<rparr>)"
    by (simp add: lookup_method_spec_def split: option.splits)
  show "lookup_method_spec users_spec ((users_args (Some ''GET''))\<lparr>path := ''/Users''\<rparr>) = Inl AttributeError"
    by (simp add: lookup_method_spec_def users_spec_def users_item_def users_args_def)
  show \<open>replace_docs_endpoint fmt two_ops_spec ''path: /users\<newline>http_method: Delete'' =
     Inr (''### <span class="http-delete">Delete</span>` /users` -- Remove users { : data-toc-label="Delete Remove users" : .styled-as-h2 }\<newline>'' @
          ''\<newline>'' @
          ''Removes all users.\<newline>'' @
          ''\<newline>'')\<close>
    by code_simp
  show "replace_docs_endpoint fmt [''/users'' \<mapsto> [''GET'' \<mapsto> users_op]] ''path: /users\<newline>http_method: GET'' =
     Inl TypeError"
    by code_simp
qed

theorem users_example_witness:
  "users_spec (path (users_args (Some ''GET''))) = Some users_item \<and>
   http_method (users_args (Some ''GET'')) = Some ''GET'' \<and>
   lower ''GET'' = ''get'' \<and>
   lookup_method_spec users_spec (users_args (Some ''GET'')) = Inr (users_item ''get'') \<and>
   users_item ''get'' = Some users_op \<and>
   users_spec (path ((users_args (Some ''GET''))\<lparr>path := ''/Users''\<rparr>)) = None \<and>
   lookup_method_spec users_spec ((users_args (Some ''GET''))\<lparr>path := ''/Users''\<rparr>) = Inl AttributeError \<and>
   lower ''GET'' = lower ''get'' \<and>
   lookup_method_spec users_spec (users_args (Some ''GET'')) =
   lookup_method_spec users_spec (users_args (Some ''get''))"
proof -
  have l: "lower ''GET'' = ''get''" "lower ''GET'' = lower ''get''" by code_simp+
  have p: "users_spec (path (users_args (Some ''GET''))) = Some users_item"
    "http_method (users_args (Some ''GET'')) = Some ''GET''"
    "users_item ''get'' = Some users_op"
    "users_spec (path ((users_args (Some ''GET''))\<lparr>path := ''/Users''\<rparr>)) = None"
    by (simp_all add: users_spec_def users_args_def users_item_def)
  note t1 = users_example [where ps = users_spec and args = "users_args (Some ''GET'')"
      and item = users_item and m = "''GET''"]
  note t2 = users_example [where ps = users_spec
      and args = "(users_args (Some ''GET''))\<lparr>path := ''/Users''\<rparr>"]
  note t3 = users_example [where ps = users_spec and args = "users_args None"
      and m = "''GET''" and m' = "''get''"]
  from t1 p l have a: "lookup_method_spec users_spec (users_args (Some ''GET'')) = Inr (users_item ''get'')"
    by simp
  from t2 have b: "lookup_method_spec users_spec ((users_args (Some ''GET''))\<lparr>path := ''/Users''\<rparr>) = Inl AttributeError"
    by blast
  from t3 l have "lookup_method_spec users_spec ((users_args None)\<lparr>http_method := Some ''GET''\<rparr>) =
        lookup_method_spec users_spec ((users_args None)\<lparr>http_method := Some ''get''\<rparr>)"
    by blast
  then have c: "lookup_method_spec users_spec (users_args (Some ''GET'')) =
   lookup_method_spec users_spec (users_args (Some ''get''))"
    by (simp add: users_args_def)
  from a b c p l show ?thesis by blast
qed

text \<open>
  C2. With a method \<open>m\<close> that is present and not empty, a path item for the path, an
  operation under the lowercased method, and its summary and description, rendering
  succeeds, and its text holds the heading line: the lowercased method in the class of the
  span, the method as the block wrote it in the span, the path, the summary, and the label
  made of the method, a space and the summary.
\<close>

theorem generate_endpoint_docs_heading:
  assumes "http_method args = Some m" and "m \<noteq> []"
    and "ps (path args) = Some item" and "item (lower m) = Some ope"
    and "ope ''summary'' = Some summary" and "ope ''description'' = Some description"
  shows \<open>\<exists>before after.
           generate_endpoint_docs ps args = Inr (before @
             ''### <span class="http-'' @ lower m @ ''">'' @ m @ ''</span>` '' @ path args @
             ''` -- '' @ summary @ '' { : data-toc-label="'' @ m @ '' '' @ summary @
             ''" : .styled-as-h2 }\<newline>'' @ after)\<close>
proof -
  from assms(2) have "lower m \<noteq> []" by (simp add: lower_def)
  with assms have \<open>generate_endpoint_docs ps args = Inr (title_line args @
             ''### <span class="http-'' @ lower m @ ''">'' @ m @ ''</span>` '' @ path args @
             ''` -- '' @ summary @ '' { : data-toc-label="'' @ m @ '' '' @ summary @
             ''" : .styled-as-h2 }\<newline>'' @ (''\<newline>'' @ description @ ''\<newline>\<newline>'' @ tips_part args))\<close>
    by (simp add: generate_endpoint_docs_def lookup_method_spec_def method_heading_def)
  then show ?thesis by blast
qed

theorem generate_endpoint_docs_heading_witness:
  \<open>http_method (users_args (Some ''Get'')) = Some ''Get'' \<and>
   users_spec (path (users_args (Some ''Get''))) = Some users_item \<and>
   users_item (lower ''Get'') = Some users_op \<and>
   users_op ''summary'' = Some ''List users'' \<and>
   users_op ''description'' = Some ''Returns all users.'' \<and>
   (\<exists>before after.
      generate_endpoint_docs users_spec (users_args (Some ''Get'')) = Inr (before @
        ''### <span class="http-get">Get</span>` /users` -- List users { : data-toc-label="Get List users" : .styled-as-h2 }\<newline>'' @
        after))\<close>
proof -
  have l: "lower ''Get'' = ''get''" by code_simp
  have h: "http_method (users_args (Some ''Get'')) = Some ''Get''"
    "users_spec (path (users_args (Some ''Get''))) = Some users_item"
    "users_item (lower ''Get'') = Some users_op"
    "users_op ''summary'' = Some ''List users''"
    "users_op ''description'' = Some ''Returns all users.''"
    by (simp_all add: users_args_def users_spec_def users_item_def users_op_def l)
  have n: "''Get'' \<noteq> []" by simp
  note t = generate_endpoint_docs_heading [where args = "users_args (Some ''Get'')"
      and m = "''Get''" and ps = users_spec and item = users_item and ope = users_op
      and summary = "''List users''" and description = "''Returns all users.''"]
  from h n t show ?thesis by (simp add: l users_args_def)
qed

text \<open>
  The claim C2 as the specification words it fails twice: a method written in small
  letters is shown in small letters, and an absent method raises \<open>AttributeError\<close> at the
  lookup, where no heading with \<open>ANY\<close> has been written yet.
\<close>

theorem generate_endpoint_docs_counterexample:
  \<open>generate_endpoint_docs users_spec (users_args (Some ''get'')) =
     Inr (''### <span class="http-get">get</span>` /users` -- List users { : data-toc-label="get List users" : .styled-as-h2 }\<newline>'' @
          ''\<newline>Returns all users.\<newline>\<newline>'') \<and>
   generate_endpoint_docs users_spec (users_args None) = Inl AttributeError\<close>
  by code_simp

section \<open>Exceptions that leave the pipeline\<close>

text \<open>
  C1. A block whose path the specification does not know: the lookup raises
  \<open>AttributeError\<close>, the callback catches only \<open>ValueError\<close>, and the exception leaves
  \<open>on_page_markdown\<close>; the block after it, which would render, is never reached. A method
  that the path item does not have raises \<open>TypeError\<close>, and a block with no method raises
  \<open>AttributeError\<close>; neither is caught by the callback.
\<close>

theorem on_page_markdown_unknown_path_raises:
  "on_page_markdown fmt users_spec
     (''::: docs.endpoint\<newline>path: /missing\<newline>http_method: GET\<newline>:::\<newline>'' @
      ''::: docs.endpoint\<newline>path: /users\<newline>http_method: GET\<newline>:::'') = Inl AttributeError \<and>
   replace_docs_endpoint fmt users_spec ''path: /users\<newline>http_method: POST'' = Inl TypeError \<and>
   replace_docs_endpoint fmt users_spec ''path: /users'' = Inl AttributeError"
  by code_simp

text \<open>
  C3. A block with no path, followed by a block that gives a path and no method: alone,
  the first block is turned into the error text, the library's message for the
  dictionary and for the missing field \<open>path\<close>; the second raises \<open>AttributeError\<close> at the
  lookup, which leaves \<open>on_page_markdown\<close>: the document gets neither the error text nor a
  fragment.
\<close>

theorem missing_path_sibling_raises:
  "on_page_markdown fmt users_spec
     (''::: docs.endpoint\<newline>http_method: GET\<newline>:::\<newline>'' @
      ''::: docs.endpoint\<newline>path: /users\<newline>:::'') = Inl AttributeError \<and>
   replace_docs_endpoint fmt users_spec ''http_method: GET'' =
     Inr (''**Error parsing docs.endpoint**: Invalid arguments in docs.endpoint: '' @
          fmt [(''http_method'', Str ''GET'')] [(''path'', Missing)]) \<and>
   replace_docs_endpoint fmt users_spec ''path: /users'' = Inl AttributeError"
  by code_simp

section \<open>The blocks of a document\<close>

text \<open>
  C5, as amended. The blocks found in a document, with the unmatched texts, put the document
  together again, in order and without overlap; before each block, the opening text
  \<open>::: docs.endpoint\<close> with its line feed stands nowhere earlier, and the body ends at the
  nearest closing text, a line feed and \<open>:::\<close>; no opening text followed by a closing text
  is left in the text after the last block. Conversely every such span is a block, whatever
  its body, the empty one included; the search goes on after it. The line feed that ends the
  opening line and the line feed that begins the closing text are two characters.
\<close>

theorem docs_pattern_blocks_spans:
  "(docs_pattern_blocks s = (bs, tail) \<longrightarrow>
      s = concat (map (\<lambda>(pre, body). pre @ OPEN @ body @ CLOSE) bs) @ tail \<and>
      (\<forall>(pre, body) \<in> set bs.
         \<not> sublist OPEN (pre @ butlast OPEN) \<and> \<not> sublist CLOSE (body @ butlast CLOSE)) \<and>
      \<not> (\<exists>a b c. tail = a @ OPEN @ b @ CLOSE @ c)) \<and>
   (\<not> sublist OPEN (pre' @ butlast OPEN) \<and> \<not> sublist CLOSE (body' @ butlast CLOSE) \<longrightarrow>
      docs_pattern_blocks (pre' @ OPEN @ body' @ CLOSE @ rest) =
        ((pre', body') # fst (docs_pattern_blocks rest), snd (docs_pattern_blocks rest)))"
proof (intro conjI impI)
  assume "docs_pattern_blocks s = (bs, tail)"
  from docs_pattern_blocks_facts [OF this]
  show "s = concat (map (\<lambda>(pre, body). pre @ OPEN @ body @ CLOSE) bs) @ tail"
    and "\<forall>(pre, body) \<in> set bs.
         \<not> sublist OPEN (pre @ butlast OPEN) \<and> \<not> sublist CLOSE (body @ butlast CLOSE)"
    and "\<not> (\<exists>a b c. tail = a @ OPEN @ b @ CLOSE @ c)"
    by blast+
next
  assume "\<not> sublist OPEN (pre' @ butlast OPEN) \<and> \<not> sublist CLOSE (body' @ butlast CLOSE)"
  then have "docs_pattern_search (pre' @ OPEN @ body' @ CLOSE @ rest) = Some (pre', body', rest)"
    by (simp add: docs_pattern_search_Some_iff)
  then show "docs_pattern_blocks (pre' @ OPEN @ body' @ CLOSE @ rest) =
        ((pre', body') # fst (docs_pattern_blocks rest), snd (docs_pattern_blocks rest))"
    by (simp add: case_prod_beta)
qed

theorem docs_pattern_blocks_spans_witness:
  "docs_pattern_blocks ''ab::: docs.endpoint\<newline>path: /users\<newline>:::cd::: docs.endpoint\<newline>\<newline>:::\<newline>'' =
     ([(''ab'', ''path: /users''), (''cd'', [])], ''\<newline>'') \<and>
   ''ab::: docs.endpoint\<newline>path: /users\<newline>:::cd::: docs.endpoint\<newline>\<newline>:::\<newline>'' =
     (''ab'' @ OPEN @ ''path: /users'' @ CLOSE) @ (''cd'' @ OPEN @ [] @ CLOSE) @ ''\<newline>'' \<and>
   \<not> sublist OPEN (''ab'' @ butlast OPEN) \<and> \<not> sublist CLOSE (''path: /users'' @ butlast CLOSE) \<and>
   \<not> sublist OPEN (''cd'' @ butlast OPEN) \<and> \<not> sublist CLOSE ([] @ butlast CLOSE) \<and>
   docs_pattern_blocks (''cd'' @ OPEN @ [] @ CLOSE @ ''\<newline>'') = ([(''cd'', [])], ''\<newline>'')"
proof -
  let ?s = "''ab::: docs.endpoint\<newline>path: /users\<newline>:::cd::: docs.endpoint\<newline>\<newline>:::\<newline>''"
  have b: "docs_pattern_blocks ?s = ([(''ab'', ''path: /users''), (''cd'', [])], ''\<newline>'')"
    by code_simp
  have n: "\<not> sublist OPEN (''cd'' @ butlast OPEN) \<and> \<not> sublist CLOSE ([] @ butlast CLOSE)"
    by code_simp
  have t: "docs_pattern_blocks ''\<newline>'' = ([], ''\<newline>'')" by code_simp
  from docs_pattern_blocks_spans [of ?s "[(''ab'', ''path: /users''), (''cd'', [])]" "''\<newline>''"
      "''cd''" "[]" "''\<newline>''"] b n t
  show ?thesis by simp
qed

text \<open>
  The claim C5 as the specification words it fails for the opening line directly followed
  by the closing line: one line feed cannot serve both, and nothing is matched. The block
  with the empty body has an empty line between the two.
\<close>

theorem docs_pattern_blocks_counterexample:
  "docs_pattern_blocks ''::: docs.endpoint\<newline>:::'' = ([], ''::: docs.endpoint\<newline>:::'') \<and>
   docs_pattern_blocks ''::: docs.endpoint\<newline>\<newline>:::'' = ([([], [])], [])"
  by code_simp

section \<open>The text outside the blocks\<close>



section \<open>Tips\<close>




text \<open>
  C8, as amended. A \<open>tips\<close> key line with an inline value that is not blank is followed
  by at least one line of four spaces and a content, none of them a key line itself. Then
  the value under \<open>tips\<close> is a list: what earlier lines of the block collected, the
  trimmed contents of these lines in their order, and what later lines collect; with no
  other continuation line in the block it is the list of these contents alone. The inline
  value is not in it, and the validated arguments carry the same list. A line of two
  spaces and a content never adds a tip.
\<close>

theorem tips_inline_value_overwritten:
  assumes "splitlines tag_content = pre @ tline # map ((@) ''    '') cs @ post"
    and "arg_match tline = Some (''tips'', v)" and "strip v \<noteq> []"
    and "cs \<noteq> []" and "\<forall>c \<in> set cs. c \<noteq> [] \<and> arg_match (''    '' @ c) = None"
  shows "(\<exists>A B. map_of (raw_arguments tag_content) ''tips'' = Some (Lst (A @ map strip cs @ B)) \<and>
           (\<forall>args. extract_arguments fmt tag_content = Inr args \<longrightarrow>
                   tips args = Some (A @ map strip cs @ B)) \<and>
           ((\<forall>l \<in> set pre \<union> set post. \<not> is_continuation l) \<longrightarrow> A = [] \<and> B = [])) \<and>
         (\<forall>st d. d \<noteq> [] \<and> \<not> isspace (hd d) \<longrightarrow>
            tips_acc (parse_line st (''  '' @ d)) = tips_acc st)"
proof -
  let ?conts = "map ((@) ''    '') cs"
  have lf: "CHR 0x0A \<notin> set c" if "c \<in> set cs" for c
  proof -
    from that have "''    '' @ c \<in> set (splitlines tag_content)" unfolding assms(1) by auto
    from splitlines_no_lf [OF this] show ?thesis by simp
  qed
  have "\<forall>c \<in> set cs. c \<noteq> [] \<and> CHR 0x0A \<notin> set c \<and> arg_match c = None"
    using assms(5) lf by (simp only: arg_match_indented) blast
  from indented_all [OF this]
  have cont: "\<forall>l \<in> set ?conts. is_continuation l" and tip: "map tip_of ?conts = map strip cs" .
  define st1 where "st1 = parse_lines initial_state pre"
  define st2 where "st2 = parse_line st1 tline"
  define st3 where "st3 = parse_lines st2 ?conts"
  define A where "A = tips_acc st1"
  have st2: "tips_acc st2 = A" "current_key st2 = Some ''tips''"
    unfolding st2_def A_def by (simp_all add: parse_line_key [OF assms(2)])
  have st3: "tips_acc st3 = A @ map strip cs"
    unfolding st3_def using parse_lines_continuations [OF cont st2(2)] st2(1) tip by simp
  obtain B where B: "tips_acc (parse_lines st3 post) = tips_acc st3 @ B"
    using parse_lines_tips_grow by blast
  have all: "parse_lines initial_state (splitlines tag_content) = parse_lines st3 post"
    unfolding assms(1) st1_def st2_def st3_def
    by (simp only: parse_lines_append parse_lines_Cons)
  have ne: "A @ map strip cs @ B \<noteq> []" using assms(4) by simp
  have raw: "map_of (raw_arguments tag_content) ''tips'' = Some (Lst (A @ map strip cs @ B))"
    using all B st3 ne by (simp add: raw_arguments_def finish_tips)
  have val: "\<forall>args. extract_arguments fmt tag_content = Inr args \<longrightarrow>
                   tips args = Some (A @ map strip cs @ B)"
    using raw by (auto dest!: extract_arguments_tips simp: list_of_def)
  have "A = [] \<and> B = []" if h: "\<forall>l \<in> set pre \<union> set post. \<not> is_continuation l"
  proof
    from h have "tips_acc st1 = tips_acc initial_state"
      unfolding st1_def by (intro parse_lines_other) blast
    then show "A = []" by (simp add: A_def initial_state_def)
    from h have "tips_acc (parse_lines st3 post) = tips_acc st3"
      by (intro parse_lines_other) blast
    with B show "B = []" by simp
  qed
  moreover have "\<forall>st d. d \<noteq> [] \<and> \<not> isspace (hd d) \<longrightarrow>
            tips_acc (parse_line st (''  '' @ d)) = tips_acc st"
  proof (intro allI impI)
    fix st :: parse_state and d :: string
    assume "d \<noteq> [] \<and> \<not> isspace (hd d)"
    then have "continuation_match (''  '' @ d) = None" by (intro continuation_match_two) blast+
    then have "\<not> is_continuation (''  '' @ d)" unfolding is_continuation_def by blast
    then show "tips_acc (parse_line st (''  '' @ d)) = tips_acc st" by (rule parse_line_other)
  qed
  ultimately show ?thesis using raw val by blast
qed

theorem tips_inline_value_overwritten_witness:
  "splitlines ''path: /users\<newline>tips: inline\<newline>    first\<newline>    second '' =
     [''path: /users''] @ ''tips: inline'' # map ((@) ''    '') [''first'', ''second ''] @ [] \<and>
   arg_match ''tips: inline'' = Some (''tips'', ''inline'') \<and>
   raw_arguments ''path: /users\<newline>tips: inline\<newline>    first\<newline>    second '' =
     [(''path'', Str ''/users''), (''tips'', Lst [''first'', ''second''])] \<and>
   map_of (raw_arguments ''path: /users\<newline>tips: inline\<newline>    first\<newline>    second '') ''tips'' =
     Some (Lst [''first'', ''second'']) \<and>
   extract_arguments no_message ''path: /users\<newline>tips: inline\<newline>    first\<newline>    second '' =
     Inr ((users_args None)\<lparr>tips := Some [''first'', ''second'']\<rparr>)"
proof -
  let ?c = "''path: /users\<newline>tips: inline\<newline>    first\<newline>    second ''"
  have s: "splitlines ?c = [''path: /users''] @ ''tips: inline'' # map ((@) ''    '') [''first'', ''second ''] @ []"
    by code_simp
  have t: "arg_match ''tips: inline'' = Some (''tips'', ''inline'')" by code_simp
  have v: "strip ''inline'' \<noteq> []" by code_simp
  have n: "[''first'', ''second ''] \<noteq> []" by simp
  have c: "\<forall>c \<in> set [''first'', ''second '']. c \<noteq> [] \<and> arg_match (''    '' @ c) = None" by code_simp
  have o: "\<forall>l \<in> set [''path: /users''] \<union> set []. \<not> is_continuation l" by code_simp
  have m: "map strip [''first'', ''second ''] = [''first'', ''second'']" by code_simp
  have r: "raw_arguments ?c = [(''path'', Str ''/users''), (''tips'', Lst [''first'', ''second''])]"
    by code_simp
  have e: "extract_arguments no_message ?c = Inr ((users_args None)\<lparr>tips := Some [''first'', ''second'']\<rparr>)"
    by code_simp
  from tips_inline_value_overwritten [OF s t v n c, of no_message] o m
  have "map_of (raw_arguments ?c) ''tips'' = Some (Lst [''first'', ''second''])" by auto
  with s t r e show ?thesis by blast
qed

text \<open>
  The claim C8 as worded fails when the indented line has the shape of a key line: it is
  read as the key \<open>Note\<close>, no tip is collected, \<open>tips\<close> keeps the inline string, and the
  validation refuses it as no list.
\<close>

theorem tips_inline_value_overwritten_counterexample:
  "splitlines ''path: /users\<newline>tips: inline\<newline>    Note: one'' =
     [''path: /users'', ''tips: inline'', ''    Note: one''] \<and>
   raw_arguments ''path: /users\<newline>tips: inline\<newline>    Note: one'' =
     [(''path'', Str ''/users''), (''tips'', Str ''inline''), (''Note'', Str ''one'')] \<and>
   validate (map_of (raw_arguments ''path: /users\<newline>tips: inline\<newline>    Note: one'')) =
     Inl [(''tips'', NotList)]"
  by code_simp

text \<open>
  C10, as amended. While the current key is \<open>tips\<close>, a line of four spaces and a content
  that the key pattern matches is itself a key line, as the pattern skips the spaces: no
  tip is appended, and its identifier becomes the current key. A value that is not blank
  is stored under the identifier; a blank value stores the empty list when the identifier
  is \<open>tips\<close> and nothing otherwise. Lines of four spaces and a content that is no key line,
  which would have been collected as tips in its place, are not collected after it, unless
  the identifier is \<open>tips\<close> itself: then they are.
\<close>

theorem key_shaped_tip_line:
  assumes "current_key st = Some ''tips''" and "arg_match x = Some (k, v)"
    and "\<forall>y \<in> set ys. y \<noteq> [] \<and> CHR 0x0A \<notin> set y \<and> arg_match y = None"
  shows "arg_match (''    '' @ x) = Some (k, v) \<and>
         tips_acc (parse_line st (''    '' @ x)) = tips_acc st \<and>
         current_key (parse_line st (''    '' @ x)) = Some k \<and>
         arguments (parse_line st (''    '' @ x)) =
           (if strip v \<noteq> [] then dict_set k (Str (strip v)) (arguments st)
            else if k = ''tips'' then dict_set ''tips'' (Lst []) (arguments st)
            else arguments st) \<and>
         (strip v \<noteq> [] \<longrightarrow>
            map_of (arguments (parse_line st (''    '' @ x))) k = Some (Str (strip v))) \<and>
         (strip v = [] \<and> k = ''tips'' \<longrightarrow>
            map_of (arguments (parse_line st (''    '' @ x))) ''tips'' = Some (Lst [])) \<and>
         (strip v = [] \<and> k \<noteq> ''tips'' \<longrightarrow>
            arguments (parse_line st (''    '' @ x)) = arguments st) \<and>
         tips_acc (parse_lines (parse_line st (''    '' @ x)) (map ((@) ''    '') ys)) =
           (if k = ''tips'' then tips_acc st @ map strip ys else tips_acc st) \<and>
         tips_acc (parse_lines st (map ((@) ''    '') ys)) = tips_acc st @ map strip ys"
proof -
  define l where "l = ''    '' @ x"
  define st' where "st' = parse_line st l"
  let ?ls = "map ((@) ''    '') ys"
  from assms(2) have m: "arg_match l = Some (k, v)" by (simp only: l_def arg_match_indented)
  note p = parse_line_key [OF m, of st, folded st'_def]
  from indented_all [OF assms(3)]
  have cont: "\<forall>l \<in> set ?ls. is_continuation l" and tip: "map tip_of ?ls = map strip ys" .
  have 1: "tips_acc st' = tips_acc st" and 2: "current_key st' = Some k"
    by (simp_all add: p)
  have 3: "arguments st' =
           (if strip v \<noteq> [] then dict_set k (Str (strip v)) (arguments st)
            else if k = ''tips'' then dict_set ''tips'' (Lst []) (arguments st)
            else arguments st)"
    by (simp add: p)
  have 4: "strip v \<noteq> [] \<longrightarrow> map_of (arguments st') k = Some (Str (strip v))"
    and 5: "strip v = [] \<and> k = ''tips'' \<longrightarrow> map_of (arguments st') ''tips'' = Some (Lst [])"
    and 6: "strip v = [] \<and> k \<noteq> ''tips'' \<longrightarrow> arguments st' = arguments st"
    by (simp_all add: 3 map_of_dict_set)
  have 7: "tips_acc (parse_lines st' ?ls) = (if k = ''tips'' then tips_acc st @ map strip ys else tips_acc st)"
  proof (cases "k = ''tips''")
    case True
    with 2 have "current_key st' = Some ''tips''" by simp
    from parse_lines_continuations [OF cont this] 1 True tip show ?thesis by simp
  next
    case False
    with 2 have "current_key st' \<noteq> Some ''tips''" by simp
    moreover from cont have "\<forall>l \<in> set ?ls. arg_match l = None" by (simp add: is_continuation_def)
    ultimately have "parse_lines st' ?ls = st'" by (intro parse_lines_skipped)
    with 1 False show ?thesis by simp
  qed
  have 8: "tips_acc (parse_lines st ?ls) = tips_acc st @ map strip ys"
    using parse_lines_continuations [OF cont assms(1)] tip by simp
  from m 1 2 3 4 5 6 7 8 show ?thesis unfolding st'_def l_def by blast
qed

theorem key_shaped_tip_line_witness:
  "current_key (parse_line initial_state ''tips:'') = Some ''tips'' \<and>
   arg_match ''Note: x'' = Some (''Note'', ''x'') \<and>
   arg_match (''    '' @ ''Note: x'') = Some (''Note'', ''x'') \<and>
   tips_acc (parse_lines initial_state [''tips:'', ''    Note: x'', ''    second'']) = [] \<and>
   tips_acc (parse_lines initial_state [''tips:'', ''    second'']) = [''second''] \<and>
   current_key (parse_lines initial_state [''tips:'', ''    Note: x'']) = Some ''Note'' \<and>
   arguments (parse_lines initial_state [''tips:'', ''    Note: x'']) =
     [(''tips'', Lst []), (''Note'', Str ''x'')]"
proof -
  let ?st = "parse_line initial_state ''tips:''"
  have k: "current_key ?st = Some ''tips''" by code_simp
  have a: "arg_match ''Note: x'' = Some (''Note'', ''x'')" by code_simp
  have c: "\<forall>y \<in> set [''second'']. y \<noteq> [] \<and> CHR 0x0A \<notin> set y \<and> arg_match y = None" by code_simp
  have s: "strip ''x'' = ''x''" "strip ''second'' = ''second''" by code_simp+
  have n: "''Note'' \<noteq> ''tips''" by simp
  have t0: "tips_acc ?st = []" "arguments ?st = [(''tips'', Lst [])]" by code_simp+
  from key_shaped_tip_line [OF k a c] s n t0 k a
  show ?thesis by (simp add: parse_lines_def)
qed

text \<open>
  The claim C10 as worded fails in two cases: \<open>Note:\<close> with nothing after the colon is
  stored under no key, and after \<open>tips: x\<close> the accumulation goes on.
\<close>

theorem key_shaped_tip_line_counterexample:
  "splitlines ''tips:\<newline>    Note:\<newline>    second'' = [''tips:'', ''    Note:'', ''    second''] \<and>
   arg_match ''    Note:'' = Some (''Note'', []) \<and>
   raw_arguments ''tips:\<newline>    Note:\<newline>    second'' = [(''tips'', Lst [])] \<and>
   splitlines ''tips:\<newline>    tips: x\<newline>    second'' = [''tips:'', ''    tips: x'', ''    second''] \<and>
   arg_match ''    tips: x'' = Some (''tips'', ''x'') \<and>
   raw_arguments ''tips:\<newline>    tips: x\<newline>    second'' = [(''tips'', Lst [''second''])]"
  by code_simp

section \<open>Keys that are no fields\<close>

text \<open>
  C9, as amended. A key that is none of the five fields is dropped by the validation: the
  result is the same with or without it, so it causes no error. A key line with such a
  key becomes the current key. Taking the line out of a block changes the tips collected
  by exactly the continuation lines that stand after it before the next key line, when the
  key line before it is that of \<open>tips\<close>: with the line they are not collected. Unless
  there is such a continuation line, the dictionaries with and without the line agree on
  the five fields, the validation gives the same result, and a block that is parsed
  without the line is parsed to the same arguments and replaced by the same text with it.
  If there is one, the values under \<open>tips\<close> differ.
\<close>

theorem unknown_keys_dropped:
  assumes "k \<notin> set field_names" and "arg_match l = Some (k, v)"
    and "splitlines c = pre @ l # post" and "splitlines c' = pre @ post"
  shows "validate (a(k \<mapsto> x)) = validate a \<and>
         current_key (parse_lines initial_state (pre @ [l])) = Some k \<and>
         (\<exists>T1 X.
            tips_acc (parse_lines initial_state (splitlines c')) =
              T1 @ (if last_key pre = Some ''tips''
                    then map tip_of (filter is_continuation (takeWhile (\<lambda>m. arg_match m = None) post))
                    else []) @ X \<and>
            tips_acc (parse_lines initial_state (splitlines c)) = T1 @ X) \<and>
         (\<not> (last_key pre = Some ''tips'' \<and>
             list_ex is_continuation (takeWhile (\<lambda>m. arg_match m = None) post)) \<longrightarrow>
            (\<forall>f \<in> set field_names. map_of (raw_arguments c) f = map_of (raw_arguments c') f) \<and>
            validate (map_of (raw_arguments c)) = validate (map_of (raw_arguments c')) \<and>
            (\<forall>args. extract_arguments fmt c' = Inr args \<longrightarrow>
               extract_arguments fmt c = Inr args \<and>
               replace_docs_endpoint fmt ps c = replace_docs_endpoint fmt ps c')) \<and>
         (last_key pre = Some ''tips'' \<and>
          list_ex is_continuation (takeWhile (\<lambda>m. arg_match m = None) post) \<longrightarrow>
            map_of (raw_arguments c) ''tips'' \<noteq> map_of (raw_arguments c') ''tips'')"
proof -
  define run where "run = takeWhile (\<lambda>m. arg_match m = None) post"
  define T where "T = (if last_key pre = Some ''tips'' then map tip_of (filter is_continuation run) else [])"
  define A where "A = parse_lines initial_state (splitlines c')"
  define B where "B = parse_lines initial_state (splitlines c)"
  let ?lost = "last_key pre = Some ''tips'' \<and> list_ex is_continuation run"
  have ap: "apart T A B"
    unfolding A_def B_def assms(3,4) T_def run_def by (rule unknown_key_apart [OF assms(1,2)])
  have raw: "raw_arguments c = finish B" "raw_arguments c' = finish A"
    by (simp_all add: raw_arguments_def A_def B_def)
  have T: "T \<noteq> [] \<longleftrightarrow> ?lost"
    by (auto simp: T_def filter_empty_conv list_ex_iff)
  have 1: "validate (a(k \<mapsto> x)) = validate a"
    by (rule validate_agree [OF agree_upd_other [OF assms(1)]])
  have 2: "current_key (parse_lines initial_state (pre @ [l])) = Some k"
    by (simp add: parse_lines_append parse_lines_Cons parse_lines_Nil parse_line_key [OF assms(2)])
  from ap have 3: "\<exists>T1 X. tips_acc A = T1 @ T @ X \<and> tips_acc B = T1 @ X"
    by (simp add: apart_def)
  have 4: "(\<forall>f \<in> set field_names. map_of (raw_arguments c) f = map_of (raw_arguments c') f) \<and>
            validate (map_of (raw_arguments c)) = validate (map_of (raw_arguments c')) \<and>
            (\<forall>args. extract_arguments fmt c' = Inr args \<longrightarrow>
               extract_arguments fmt c = Inr args \<and>
               replace_docs_endpoint fmt ps c = replace_docs_endpoint fmt ps c')"
    if "\<not> ?lost"
  proof -
    from that T have "T = []" by blast
    with ap have "agree (map_of (finish A)) (map_of (finish B))" by (simp add: apart_finish_same)
    then have ag: "agree (map_of (raw_arguments c)) (map_of (raw_arguments c'))"
      by (simp add: raw agree_sym)
    then have v: "validate (map_of (raw_arguments c)) = validate (map_of (raw_arguments c'))"
      by (rule validate_agree)
    have "extract_arguments fmt c = Inr args \<and>
          replace_docs_endpoint fmt ps c = replace_docs_endpoint fmt ps c'"
      if "extract_arguments fmt c' = Inr args" for args
    proof -
      from that v have "extract_arguments fmt c = Inr args" by (simp add: extract_arguments_Inr)
      with that show ?thesis by (simp add: replace_docs_endpoint_def)
    qed
    with ag v show ?thesis by (simp add: agree_def)
  qed
  have 5: "map_of (raw_arguments c) ''tips'' \<noteq> map_of (raw_arguments c') ''tips''" if "?lost"
  proof -
    from that T have "T \<noteq> []" by blast
    from apart_finish_differs [OF ap this] show ?thesis by (simp add: raw)
  qed
  from 1 2 3 4 5 show ?thesis unfolding A_def B_def T_def run_def by blast
qed

theorem unknown_keys_dropped_witness:
  "''note'' \<notin> set field_names \<and>
   arg_match ''note: x'' = Some (''note'', ''x'') \<and>
   validate ([''path'' \<mapsto> Str ''/users'', ''note'' \<mapsto> Str ''x'']) = validate [''path'' \<mapsto> Str ''/users''] \<and>
   splitlines ''path: /users\<newline>note: x\<newline>    y\<newline>tips:\<newline>    a'' =
     [''path: /users''] @ ''note: x'' # [''    y'', ''tips:'', ''    a''] \<and>
   splitlines ''path: /users\<newline>    y\<newline>tips:\<newline>    a'' = [''path: /users''] @ [''    y'', ''tips:'', ''    a''] \<and>
   last_key [''path: /users''] = Some ''path'' \<and>
   validate (map_of (raw_arguments ''path: /users\<newline>note: x\<newline>    y\<newline>tips:\<newline>    a'')) =
     validate (map_of (raw_arguments ''path: /users\<newline>    y\<newline>tips:\<newline>    a'')) \<and>
   extract_arguments no_message ''path: /users\<newline>    y\<newline>tips:\<newline>    a'' =
     Inr ((users_args None)\<lparr>tips := Some [''a'']\<rparr>) \<and>
   extract_arguments no_message ''path: /users\<newline>note: x\<newline>    y\<newline>tips:\<newline>    a'' =
     Inr ((users_args None)\<lparr>tips := Some [''a'']\<rparr>) \<and>
   splitlines ''path: /users\<newline>tips:\<newline>note: x\<newline>    a'' = [''path: /users'', ''tips:''] @ ''note: x'' # [''    a''] \<and>
   splitlines ''path: /users\<newline>tips:\<newline>    a'' = [''path: /users'', ''tips:''] @ [''    a''] \<and>
   last_key [''path: /users'', ''tips:''] = Some ''tips'' \<and>
   raw_arguments ''path: /users\<newline>tips:\<newline>note: x\<newline>    a'' =
     [(''path'', Str ''/users''), (''tips'', Lst []), (''note'', Str ''x'')] \<and>
   raw_arguments ''path: /users\<newline>tips:\<newline>    a'' = [(''path'', Str ''/users''), (''tips'', Lst [''a''])] \<and>
   map_of (raw_arguments ''path: /users\<newline>tips:\<newline>note: x\<newline>    a'') ''tips'' \<noteq>
     map_of (raw_arguments ''path: /users\<newline>tips:\<newline>    a'') ''tips''"
proof -
  let ?c1 = "''path: /users\<newline>note: x\<newline>    y\<newline>tips:\<newline>    a''"
  let ?c1' = "''path: /users\<newline>    y\<newline>tips:\<newline>    a''"
  let ?c2 = "''path: /users\<newline>tips:\<newline>note: x\<newline>    a''"
  let ?c2' = "''path: /users\<newline>tips:\<newline>    a''"
  have n: "''note'' \<notin> set field_names" by (simp add: field_names_def)
  have m: "arg_match ''note: x'' = Some (''note'', ''x'')" by code_simp
  have s1: "splitlines ?c1 = [''path: /users''] @ ''note: x'' # [''    y'', ''tips:'', ''    a'']"
    and s1': "splitlines ?c1' = [''path: /users''] @ [''    y'', ''tips:'', ''    a'']"
    and s2: "splitlines ?c2 = [''path: /users'', ''tips:''] @ ''note: x'' # [''    a'']"
    and s2': "splitlines ?c2' = [''path: /users'', ''tips:''] @ [''    a'']"
    by code_simp+
  have k1: "last_key [''path: /users''] = Some ''path''"
    and k2: "last_key [''path: /users'', ''tips:''] = Some ''tips''"
    by code_simp+
  have l1: "\<not> (last_key [''path: /users''] = Some ''tips'' \<and>
               list_ex is_continuation (takeWhile (\<lambda>m. arg_match m = None) [''    y'', ''tips:'', ''    a'']))"
    by code_simp
  have l2: "last_key [''path: /users'', ''tips:''] = Some ''tips'' \<and>
            list_ex is_continuation (takeWhile (\<lambda>m. arg_match m = None) [''    a''])"
    by code_simp
  have e1: "extract_arguments no_message ?c1' = Inr ((users_args None)\<lparr>tips := Some [''a'']\<rparr>)"
    by code_simp
  have r2: "raw_arguments ?c2 = [(''path'', Str ''/users''), (''tips'', Lst []), (''note'', Str ''x'')]"
    and r2': "raw_arguments ?c2' = [(''path'', Str ''/users''), (''tips'', Lst [''a''])]"
    by code_simp+
  note t1 = unknown_keys_dropped [OF n m s1 s1', of "[''path'' \<mapsto> Str ''/users'']" "Str ''x''" no_message users_spec]
  note t2 = unknown_keys_dropped [OF n m s2 s2', of "[''path'' \<mapsto> Str ''/users'']" "Str ''x''" no_message users_spec]
  from t1 have v: "validate ([''path'' \<mapsto> Str ''/users'', ''note'' \<mapsto> Str ''x'']) = validate [''path'' \<mapsto> Str ''/users'']"
    by blast
  from t1 l1 have a: "validate (map_of (raw_arguments ?c1)) = validate (map_of (raw_arguments ?c1'))"
    and b: "\<forall>args. extract_arguments no_message ?c1' = Inr args \<longrightarrow>
               extract_arguments no_message ?c1 = Inr args"
    by blast+
  from b e1 have e: "extract_arguments no_message ?c1 = Inr ((users_args None)\<lparr>tips := Some [''a'']\<rparr>)"
    by blast
  from t2 l2 have d: "map_of (raw_arguments ?c2) ''tips'' \<noteq> map_of (raw_arguments ?c2') ''tips''"
    by blast
  from n m v s1 s1' k1 a e1 e s2 s2' k2 r2 r2' d show ?thesis by blast
qed

text \<open>
  The claim C9 as worded fails for a line with an unknown key between \<open>tips:\<close> and its
  continuation line: with the line the tip is lost and the fragment has no callout,
  without the line it has one.
\<close>

theorem unknown_keys_dropped_counterexample:
  \<open>replace_docs_endpoint no_message users_spec ''path: /users\<newline>http_method: GET\<newline>tips:\<newline>note: x\<newline>    a'' =
     Inr (''### <span class="http-get">GET</span>` /users` -- List users { : data-toc-label="GET List users" : .styled-as-h2 }\<newline>'' @
          ''\<newline>Returns all users.\<newline>\<newline>'') \<and>
   replace_docs_endpoint no_message users_spec ''path: /users\<newline>http_method: GET\<newline>tips:\<newline>    a'' =
     Inr (''### <span class="http-get">GET</span>` /users` -- List users { : data-toc-label="GET List users" : .styled-as-h2 }\<newline>'' @
          ''\<newline>Returns all users.\<newline>\<newline>'' @
          ''!!! tip "Method Tips"\<newline>    a\<newline>\<newline>\<newline>'')\<close>
  by code_simp

end
